theory Spec2Isabelle
  imports Main "HOL-Library.Sublist"
begin

section \<open>Organization membership reconciliation (grafana/resource\_organization.go)\<close>

text \<open>
  The development embeds the user-management half of the organization resource:
  \<^verbatim>\<open>collectUsers\<close>, \<^verbatim>\<open>userDiff\<close>, \<^verbatim>\<open>userMap\<close>, \<^verbatim>\<open>addUsers\<close>,
  \<^verbatim>\<open>updateUsers\<close>, \<^verbatim>\<open>removeUsers\<close>, \<^verbatim>\<open>CreateUsers\<close>, \<^verbatim>\<open>ReadUsers\<close> and
  \<^verbatim>\<open>UpdateUsers\<close>.

  Conventions.
  \<^item> A Go \<^verbatim>\<open>map[string]V\<close> is a partial function \<open>string \<rightharpoonup> V\<close>. Go visits the keys of
    a map in an order it does not specify, each key once; every \<^verbatim>\<open>range\<close> over a map
    therefore takes the order of that visit as an argument \<open>ks\<close>, and \<open>range_order m ks\<close>
    says that \<open>ks\<close> is such an order.
  \<^item> A Go \<^verbatim>\<open>error\<close> is the text of its message; \<^verbatim>\<open>nil\<close> is \<open>None\<close>.
  \<^item> \<^verbatim>\<open>int64\<close> identifiers are integers: the code never computes with them.
  \<^item> Strings are byte lists. \<^verbatim>\<open>strings.Title\<close> and \<^verbatim>\<open>strings.ToLower\<close> are modelled
    on ASCII; bytes above 0x7F are left as they are.
\<close>

subsection \<open>Library functions of Go used by the code\<close>

text \<open>\<^verbatim>\<open>strings.Title\<close>: a letter is put in title case when the rune before it is a
  separator; the rune before the first one counts as a blank.\<close>

definition isSeparator :: "char \<Rightarrow> bool" where
  "isSeparator r \<longleftrightarrow>
     (let n = (of_char r :: nat)
      in n \<le> 127 \<and> \<not> (48 \<le> n \<and> n \<le> 57 \<or> 97 \<le> n \<and> n \<le> 122 \<or> 65 \<le> n \<and> n \<le> 90 \<or> n = 95))"

definition ToTitle :: "char \<Rightarrow> char" where
  "ToTitle r = (let n = (of_char r :: nat) in if 97 \<le> n \<and> n \<le> 122 then char_of (n - 32) else r)"

fun Title_from :: "char \<Rightarrow> string \<Rightarrow> string" where
  "Title_from prev [] = []"
| "Title_from prev (r # s) = (if isSeparator prev then ToTitle r else r) # Title_from r s"

definition Title :: "string \<Rightarrow> string" where
  "Title s = Title_from (CHR '' '') s"

definition ToLower_rune :: "char \<Rightarrow> char" where
  "ToLower_rune r = (let n = (of_char r :: nat) in if 65 \<le> n \<and> n \<le> 90 then char_of (n + 32) else r)"

definition ToLower :: "string \<Rightarrow> string" where
  "ToLower s = map ToLower_rune s"

text \<open>\<^verbatim>\<open>strconv.ParseInt(s, 10, 64)\<close>. The code drops the error
  (\<^verbatim>\<open>orgId, _ := strconv.ParseInt(d.Id(), 10, 64)\<close>), so only the value matters: 0 on a
  syntax error, the nearest bound of \<^verbatim>\<open>int64\<close> on a range error.\<close>

datatype NumError = ErrSyntax | ErrRange

definition maxUint64 :: nat where
  "maxUint64 = 2 ^ 64 - 1"

fun ParseUint_loop :: "string \<Rightarrow> nat \<Rightarrow> nat \<times> NumError option" where
  "ParseUint_loop [] n = (n, None)"
| "ParseUint_loop (c # cs) n =
     (let d = (of_char c :: nat)
      in if \<not> (48 \<le> d \<and> d \<le> 57) then (0, Some ErrSyntax)
         else if n \<ge> maxUint64 div 10 + 1 then (maxUint64, Some ErrRange)
         else if n * 10 + (d - 48) > maxUint64 then (maxUint64, Some ErrRange)
         else ParseUint_loop cs (n * 10 + (d - 48)))"

definition ParseUint :: "string \<Rightarrow> nat \<times> NumError option" where
  "ParseUint s = (if s = [] then (0, Some ErrSyntax) else ParseUint_loop s 0)"

definition ParseInt :: "string \<Rightarrow> int" where
  "ParseInt s =
     (if s = [] then 0
      else
        let neg = (hd s = CHR ''-'');
            s1 = (if hd s = CHR ''+'' \<or> hd s = CHR ''-'' then tl s else s);
            (un, err) = ParseUint s1
        in if err = Some ErrSyntax then 0
           else if \<not> neg \<and> un \<ge> 2 ^ 63 then 2 ^ 63 - 1
           else if neg \<and> un > 2 ^ 63 then - (2 ^ 63)
           else if neg then - int un else int un)"

subsection \<open>Maps and their iteration\<close>

definition range_order :: "(string \<rightharpoonup> 'v) \<Rightarrow> string list \<Rightarrow> bool" where
  "range_order m ks \<longleftrightarrow> distinct ks \<and> set ks = dom m"

text \<open>The entries a \<^verbatim>\<open>for k, v := range m\<close> visits, in the order \<open>ks\<close>.\<close>

definition range_entries :: "(string \<rightharpoonup> 'v) \<Rightarrow> string list \<Rightarrow> (string \<times> 'v) list" where
  "range_entries m ks = List.map_filter (\<lambda>k. map_option (Pair k) (m k)) ks"

subsection \<open>The resource data handed in by the framework\<close>

text \<open>Of \<^verbatim>\<open>schema.ResourceData\<close> the code reads the resource id (\<^verbatim>\<open>d.Id()\<close>), the
  attribute \<^verbatim>\<open>admin_user\<close> (\<^verbatim>\<open>d.Get\<close>) and the old and new values of the list attributes
  (\<^verbatim>\<open>d.GetChange\<close>), and it writes list attributes (\<^verbatim>\<open>d.Set\<close>).\<close>

record ResourceData =
  rd_Id :: string
  rd_admin_user :: string
  rd_old :: "string \<Rightarrow> string list"
  rd_new :: "string \<Rightarrow> string list"
  rd_written :: "string \<rightharpoonup> string list"

definition GetChange :: "ResourceData \<Rightarrow> string \<Rightarrow> string list \<times> string list" where
  "GetChange d key = (rd_old d key, rd_new d key)"

text \<open>\<^verbatim>\<open>d.Set(key, v)\<close> with a list of strings: the schema has the three list attributes
  \<^verbatim>\<open>admins\<close>, \<^verbatim>\<open>editors\<close> and \<^verbatim>\<open>viewers\<close>; for any other key the call returns an error,
  which \<^verbatim>\<open>ReadUsers\<close> ignores, and writes nothing.\<close>

definition Set_list :: "string \<Rightarrow> string list \<Rightarrow> ResourceData \<Rightarrow> ResourceData" where
  "Set_list key v d =
     (if key \<in> {''admins'', ''editors'', ''viewers''}
      then d\<lparr>rd_written := (rd_written d)(key \<mapsto> v)\<rparr> else d)"

subsection \<open>collectUsers\<close>

definition roles :: "string list" where
  "roles = [''admins'', ''editors'', ''viewers'']"

definition roleName :: "string \<Rightarrow> string" where
  "roleName role = Title (butlast role)"

definition assign_all :: "string \<Rightarrow> string list \<Rightarrow> (string \<rightharpoonup> string) \<Rightarrow> (string \<rightharpoonup> string)" where
  "assign_all rn us m = foldl (\<lambda>m u. m(u \<mapsto> rn)) m us"

definition collectUsers_step ::
  "ResourceData \<Rightarrow> (string \<rightharpoonup> string) \<times> (string \<rightharpoonup> string) \<Rightarrow> string \<Rightarrow>
   (string \<rightharpoonup> string) \<times> (string \<rightharpoonup> string)" where
  "collectUsers_step d acc role =
     (let (oldUsers, newUsers) = acc;
          (old, new) = GetChange d role
      in (assign_all (roleName role) old oldUsers, assign_all (roleName role) new newUsers))"

definition collectUsers :: "ResourceData \<Rightarrow> (string \<rightharpoonup> string) \<times> (string \<rightharpoonup> string)" where
  "collectUsers d = foldl (collectUsers_step d) (Map.empty, Map.empty) roles"

subsection \<open>userDiff\<close>

definition userDiff_new ::
  "(string \<rightharpoonup> string) \<Rightarrow> (string \<rightharpoonup> string) \<times> (string \<rightharpoonup> string) \<Rightarrow> string \<times> string \<Rightarrow>
   (string \<rightharpoonup> string) \<times> (string \<rightharpoonup> string)" where
  "userDiff_new oldUsers acc entry =
     (let (add, update) = acc; (user, role) = entry
      in case oldUsers user of
           None \<Rightarrow> (add(user \<mapsto> role), update)
         | Some oldRole \<Rightarrow> if oldRole \<noteq> role then (add, update(user \<mapsto> role)) else (add, update))"

definition userDiff_old :: "(string \<rightharpoonup> string) \<Rightarrow> string list \<Rightarrow> string \<times> string \<Rightarrow> string list" where
  "userDiff_old newUsers remove entry =
     (case newUsers (fst entry) of None \<Rightarrow> remove @ [fst entry] | Some _ \<Rightarrow> remove)"

definition userDiff ::
  "(string \<rightharpoonup> string) \<Rightarrow> (string \<rightharpoonup> string) \<Rightarrow> string list \<Rightarrow> string list \<Rightarrow>
   (string \<rightharpoonup> string) \<times> (string \<rightharpoonup> string) \<times> string list" where
  "userDiff oldUsers newUsers kn ko =
     (let (add, update) = foldl (userDiff_new oldUsers) (Map.empty, Map.empty) (range_entries newUsers kn);
          remove = foldl (userDiff_old newUsers) [] (range_entries oldUsers ko)
      in (add, update, remove))"

subsection \<open>The remote service\<close>

text \<open>Of \<^verbatim>\<open>gapi.User\<close> and \<^verbatim>\<open>gapi.OrgUser\<close> the code reads these fields only.\<close>

record User =
  User_Id :: int
  User_Email :: string

record OrgUser =
  OrgUser_Login :: string
  OrgUser_Email :: string
  OrgUser_Role :: string

type_synonym error = string

text \<open>The five methods of \<^verbatim>\<open>gapi.Client\<close> the code calls, over a state \<open>'s\<close> of the
  remote service. The two queries read that state; the three mutations answer with an
  error or \<^verbatim>\<open>nil\<close> and leave a new state.\<close>

record 's Client =
  Users :: "'s \<Rightarrow> error + User list"
  OrgUsers :: "int \<Rightarrow> 's \<Rightarrow> error + OrgUser list"
  AddOrgUser :: "int \<Rightarrow> string \<Rightarrow> string \<Rightarrow> 's \<Rightarrow> error option \<times> 's"
  UpdateOrgUser :: "int \<Rightarrow> int \<Rightarrow> string \<Rightarrow> 's \<Rightarrow> error option \<times> 's"
  RemoveOrgUser :: "int \<Rightarrow> int \<Rightarrow> 's \<Rightarrow> error option \<times> 's"

datatype call =
    CallUsers
  | CallOrgUsers int
  | CallAddOrgUser int string string
  | CallUpdateOrgUser int int string
  | CallRemoveOrgUser int int

text \<open>What a run touches: the remote state, the calls made so far with the error each
  returned, and the lines written with \<^verbatim>\<open>log.Printf\<close>.\<close>

record 's world =
  remote :: 's
  calls :: "(call \<times> error option) list"
  logs :: "string list"

definition err_of :: "error + 'a \<Rightarrow> error option" where
  "err_of r = (case r of Inl e \<Rightarrow> Some e | Inr _ \<Rightarrow> None)"

definition do_Users :: "'s Client \<Rightarrow> 's world \<Rightarrow> (error + User list) \<times> 's world" where
  "do_Users c w =
     (let r = Users c (remote w) in (r, w\<lparr>calls := calls w @ [(CallUsers, err_of r)]\<rparr>))"

definition do_OrgUsers :: "'s Client \<Rightarrow> int \<Rightarrow> 's world \<Rightarrow> (error + OrgUser list) \<times> 's world" where
  "do_OrgUsers c orgId w =
     (let r = OrgUsers c orgId (remote w)
      in (r, w\<lparr>calls := calls w @ [(CallOrgUsers orgId, err_of r)]\<rparr>))"

definition do_AddOrgUser ::
  "'s Client \<Rightarrow> int \<Rightarrow> string \<Rightarrow> string \<Rightarrow> 's world \<Rightarrow> error option \<times> 's world" where
  "do_AddOrgUser c orgId user role w =
     (let (err, s) = AddOrgUser c orgId user role (remote w)
      in (err, w\<lparr>remote := s, calls := calls w @ [(CallAddOrgUser orgId user role, err)]\<rparr>))"

definition do_UpdateOrgUser ::
  "'s Client \<Rightarrow> int \<Rightarrow> int \<Rightarrow> string \<Rightarrow> 's world \<Rightarrow> error option \<times> 's world" where
  "do_UpdateOrgUser c orgId userId role w =
     (let (err, s) = UpdateOrgUser c orgId userId role (remote w)
      in (err, w\<lparr>remote := s, calls := calls w @ [(CallUpdateOrgUser orgId userId role, err)]\<rparr>))"

definition do_RemoveOrgUser ::
  "'s Client \<Rightarrow> int \<Rightarrow> int \<Rightarrow> 's world \<Rightarrow> error option \<times> 's world" where
  "do_RemoveOrgUser c orgId userId w =
     (let (err, s) = RemoveOrgUser c orgId userId (remote w)
      in (err, w\<lparr>remote := s, calls := calls w @ [(CallRemoveOrgUser orgId userId, err)]\<rparr>))"

definition log_Printf :: "string \<Rightarrow> 's world \<Rightarrow> 's world" where
  "log_Printf line w = w\<lparr>logs := logs w @ [line]\<rparr>"

definition warn_skip :: "string \<Rightarrow> string \<Rightarrow> string" where
  "warn_skip doing user =
     ''[WARN] Skipping '' @ doing @ '' user '' @ [CHR 0x27] @ user @ [CHR 0x27] @
     ''. User is not known to Grafana.''"

subsection \<open>userMap\<close>

text \<open>The loop of \<^verbatim>\<open>userMap\<close> over the users the service lists:
  \<^verbatim>\<open>userMap[user.Email] = user.Id\<close>.\<close>

definition userMap_fill :: "User list \<Rightarrow> (string \<rightharpoonup> int)" where
  "userMap_fill users = foldl (\<lambda>m user. m(User_Email user \<mapsto> User_Id user)) Map.empty users"

definition userMap :: "'s Client \<Rightarrow> 's world \<Rightarrow> ((string \<rightharpoonup> int) \<times> error option) \<times> 's world" where
  "userMap c w =
     (case do_Users c w of
        (Inl err, w') \<Rightarrow> ((Map.empty, Some err), w')
      | (Inr users, w') \<Rightarrow> ((userMap_fill users, None), w'))"

subsection \<open>addUsers, updateUsers, removeUsers\<close>

fun addUsers_loop ::
  "'s Client \<Rightarrow> int \<Rightarrow> (string \<rightharpoonup> int) \<Rightarrow> (string \<times> string) list \<Rightarrow> 's world \<Rightarrow>
   error option \<times> 's world" where
  "addUsers_loop c orgId um [] w = (None, w)"
| "addUsers_loop c orgId um ((user, role) # rest) w =
     (case um user of
        None \<Rightarrow> addUsers_loop c orgId um rest (log_Printf (warn_skip ''adding'' user) w)
      | Some _ \<Rightarrow>
          (case do_AddOrgUser c orgId user role w of
             (Some err, w') \<Rightarrow> (Some err, w')
           | (None, w') \<Rightarrow> addUsers_loop c orgId um rest w'))"

definition addUsers ::
  "'s Client \<Rightarrow> int \<Rightarrow> (string \<rightharpoonup> string) \<Rightarrow> (string \<rightharpoonup> int) \<Rightarrow> string list \<Rightarrow> 's world \<Rightarrow>
   error option \<times> 's world" where
  "addUsers c orgId users um ks w = addUsers_loop c orgId um (range_entries users ks) w"

fun updateUsers_loop ::
  "'s Client \<Rightarrow> int \<Rightarrow> (string \<rightharpoonup> int) \<Rightarrow> (string \<times> string) list \<Rightarrow> 's world \<Rightarrow>
   error option \<times> 's world" where
  "updateUsers_loop c orgId um [] w = (None, w)"
| "updateUsers_loop c orgId um ((user, role) # rest) w =
     (case um user of
        None \<Rightarrow> updateUsers_loop c orgId um rest (log_Printf (warn_skip ''updating'' user) w)
      | Some userId \<Rightarrow>
          (case do_UpdateOrgUser c orgId userId role w of
             (Some err, w') \<Rightarrow> (Some err, w')
           | (None, w') \<Rightarrow> updateUsers_loop c orgId um rest w'))"

definition updateUsers ::
  "'s Client \<Rightarrow> int \<Rightarrow> (string \<rightharpoonup> string) \<Rightarrow> (string \<rightharpoonup> int) \<Rightarrow> string list \<Rightarrow> 's world \<Rightarrow>
   error option \<times> 's world" where
  "updateUsers c orgId users um ks w = updateUsers_loop c orgId um (range_entries users ks) w"

fun removeUsers ::
  "'s Client \<Rightarrow> int \<Rightarrow> string list \<Rightarrow> (string \<rightharpoonup> int) \<Rightarrow> 's world \<Rightarrow> error option \<times> 's world" where
  "removeUsers c orgId [] um w = (None, w)"
| "removeUsers c orgId (user # rest) um w =
     (case um user of
        None \<Rightarrow> removeUsers c orgId rest um (log_Printf (warn_skip ''deleting'' user) w)
      | Some userId \<Rightarrow>
          (case do_RemoveOrgUser c orgId userId w of
             (Some err, w') \<Rightarrow> (Some err, w')
           | (None, w') \<Rightarrow> removeUsers c orgId rest um w'))"

subsection \<open>CreateUsers, ReadUsers, UpdateUsers\<close>

definition CreateUsers :: "'s Client \<Rightarrow> ResourceData \<Rightarrow> string list \<Rightarrow> 's world \<Rightarrow> error option \<times> 's world" where
  "CreateUsers c d kn w =
     (let (oldUsers, newUsers) = collectUsers d;
          ((um, err), w1) = userMap c w
      in case err of
           Some e \<Rightarrow> (Some e, w1)
         | None \<Rightarrow> addUsers c (ParseInt (rd_Id d)) newUsers um kn w1)"

definition ReadUsers_collect ::
  "string \<Rightarrow> (string \<rightharpoonup> string list) \<Rightarrow> OrgUser \<Rightarrow> (string \<rightharpoonup> string list)" where
  "ReadUsers_collect grafAdmin roleMap orgUser =
     (if OrgUser_Login orgUser \<noteq> grafAdmin
      then roleMap(OrgUser_Role orgUser \<mapsto>
             (case roleMap (OrgUser_Role orgUser) of None \<Rightarrow> [] | Some l \<Rightarrow> l) @ [OrgUser_Email orgUser])
      else roleMap)"

definition ReadUsers_roleMap :: "string \<Rightarrow> OrgUser list \<Rightarrow> (string \<rightharpoonup> string list)" where
  "ReadUsers_roleMap grafAdmin orgUsers =
     foldl (ReadUsers_collect grafAdmin) [''Admin'' \<mapsto> [], ''Editor'' \<mapsto> [], ''Viewer'' \<mapsto> []] orgUsers"

definition ReadUsers ::
  "'s Client \<Rightarrow> ResourceData \<Rightarrow> string list \<Rightarrow> 's world \<Rightarrow> error option \<times> ResourceData \<times> 's world" where
  "ReadUsers c d ks w =
     (case do_OrgUsers c (ParseInt (rd_Id d)) w of
        (Inl err, w') \<Rightarrow> (Some err, d, w')
      | (Inr orgUsers, w') \<Rightarrow>
          (None,
           foldl (\<lambda>d (k, v). Set_list (ToLower k @ ''s'') v d) d
             (range_entries (ReadUsers_roleMap (rd_admin_user d) orgUsers) ks),
           w'))"

definition UpdateUsers ::
  "'s Client \<Rightarrow> ResourceData \<Rightarrow> string list \<Rightarrow> string list \<Rightarrow> string list \<Rightarrow> string list \<Rightarrow>
   's world \<Rightarrow> error option \<times> 's world" where
  "UpdateUsers c d kn ko ka ku w =
     (let (oldUsers, newUsers) = collectUsers d;
          (add, update, remove) = userDiff oldUsers newUsers kn ko;
          orgId = ParseInt (rd_Id d);
          ((um, err), w1) = userMap c w
      in case err of
           Some e \<Rightarrow> (Some e, w1)
         | None \<Rightarrow>
             (let (r1, w2) = addUsers c orgId add um ka w1;
                  (r2, w3) = updateUsers c orgId update um ku w2;
                  (r3, w4) = removeUsers c orgId remove um w3
              in (None, w4)))"

subsection \<open>The framework between a read and the next update\<close>

text \<open>\<^verbatim>\<open>helper/schema\<close> is a library, not part of the repository. What matters of it here:
  the values \<^verbatim>\<open>ReadUsers\<close> writes with \<^verbatim>\<open>d.Set\<close> become the recorded state, and the
  next \<^verbatim>\<open>UpdateUsers\<close> sees that state as the old values of \<^verbatim>\<open>d.GetChange\<close> and the
  configuration as the new values.\<close>

definition recorded_state :: "ResourceData \<Rightarrow> string \<Rightarrow> string list" where
  "recorded_state d key = (case rd_written d key of Some v \<Rightarrow> v | None \<Rightarrow> rd_old d key)"

definition next_update :: "ResourceData \<Rightarrow> (string \<Rightarrow> string list) \<Rightarrow> ResourceData" where
  "next_update d config =
     \<lparr>rd_Id = rd_Id d, rd_admin_user = rd_admin_user d, rd_old = recorded_state d,
      rd_new = config, rd_written = Map.empty\<rparr>"

subsection \<open>Vocabulary of the properties\<close>

text \<open>The calls a phase makes when it runs to its end: one per entry whose email is in the
  index, in the order of the entries.\<close>

fun add_calls :: "int \<Rightarrow> (string \<rightharpoonup> int) \<Rightarrow> (string \<times> string) list \<Rightarrow> call list" where
  "add_calls orgId um [] = []"
| "add_calls orgId um ((user, role) # rest) =
     (case um user of
        None \<Rightarrow> add_calls orgId um rest
      | Some _ \<Rightarrow> CallAddOrgUser orgId user role # add_calls orgId um rest)"

fun update_calls :: "int \<Rightarrow> (string \<rightharpoonup> int) \<Rightarrow> (string \<times> string) list \<Rightarrow> call list" where
  "update_calls orgId um [] = []"
| "update_calls orgId um ((user, role) # rest) =
     (case um user of
        None \<Rightarrow> update_calls orgId um rest
      | Some userId \<Rightarrow> CallUpdateOrgUser orgId userId role # update_calls orgId um rest)"

fun remove_calls :: "int \<Rightarrow> (string \<rightharpoonup> int) \<Rightarrow> string list \<Rightarrow> call list" where
  "remove_calls orgId um [] = []"
| "remove_calls orgId um (user # rest) =
     (case um user of
        None \<Rightarrow> remove_calls orgId um rest
      | Some userId \<Rightarrow> CallRemoveOrgUser orgId userId # remove_calls orgId um rest)"

text \<open>The warnings a phase writes when it runs to its end: one per entry whose email is
  not in the index.\<close>

definition skip_warnings :: "string \<Rightarrow> (string \<rightharpoonup> int) \<Rightarrow> string list \<Rightarrow> string list" where
  "skip_warnings doing um users = map (warn_skip doing) (filter (\<lambda>user. um user = None) users)"

text \<open>\<open>phase_trace all seg res\<close>: a phase whose complete run makes the calls \<open>all\<close> has made
  the calls \<open>seg\<close> (each with the error it returned) and returned \<open>res\<close>. The calls made are
  an initial part of \<open>all\<close>; only the last of them can have failed, and then its error is
  what the phase returns; a phase that returns \<^verbatim>\<open>nil\<close> has made all its calls.\<close>

definition phase_trace :: "call list \<Rightarrow> (call \<times> error option) list \<Rightarrow> error option \<Rightarrow> bool" where
  "phase_trace all seg res \<longleftrightarrow>
     prefix (map fst seg) all \<and>
     (\<forall>p \<in> set (butlast seg). snd p = None) \<and>
     res = (if seg = [] then None else snd (last seg)) \<and>
     (res = None \<longrightarrow> map fst seg = all)"

fun is_add :: "call \<Rightarrow> bool" where
  "is_add (CallAddOrgUser orgId user role) = True"
| "is_add _ = False"

fun is_update :: "call \<Rightarrow> bool" where
  "is_update (CallUpdateOrgUser orgId userId role) = True"
| "is_update _ = False"

fun is_remove :: "call \<Rightarrow> bool" where
  "is_remove (CallRemoveOrgUser orgId userId) = True"
| "is_remove _ = False"

text \<open>The observed state as the specification words it (\<^verbatim>\<open>fromRoster\<close>): entries whose
  login is the exempt login, when that is not empty, are left out; every other entry maps
  its email to its role.\<close>

definition spec_fromRoster :: "OrgUser list \<Rightarrow> string \<Rightarrow> (string \<rightharpoonup> string)" where
  "spec_fromRoster roster exemptLogin =
     foldl (\<lambda>m u. if exemptLogin \<noteq> [] \<and> OrgUser_Login u = exemptLogin then m
                   else m(OrgUser_Email u \<mapsto> OrgUser_Role u)) Map.empty roster"

text \<open>\<open>phase_effect w w' all warns res\<close>: what a phase that starts in \<open>w\<close>, ends in \<open>w'\<close> and
  returns \<open>res\<close> has done, when its complete run makes the calls \<open>all\<close> and writes the
  warnings \<open>warns\<close>. It has added calls and warnings at the end of what \<open>w\<close> had; the calls
  are as \<open>phase_trace\<close> says; the warnings are an initial part of \<open>warns\<close>, all of them when
  the phase returns \<^verbatim>\<open>nil\<close>.\<close>

definition phase_effect ::
  "'s world \<Rightarrow> 's world \<Rightarrow> call list \<Rightarrow> string list \<Rightarrow> error option \<Rightarrow> bool" where
  "phase_effect w w' all warns res \<longleftrightarrow>
     (\<exists>seg ls. calls w' = calls w @ seg \<and> logs w' = logs w @ ls \<and>
        phase_trace all seg res \<and> prefix ls warns \<and> (res = None \<longrightarrow> ls = warns))"

text \<open>The diff one pass of \<^verbatim>\<open>UpdateUsers\<close> computes, and its three parts.\<close>

definition pass_diff ::
  "ResourceData \<Rightarrow> string list \<Rightarrow> string list \<Rightarrow>
   (string \<rightharpoonup> string) \<times> (string \<rightharpoonup> string) \<times> string list" where
  "pass_diff d kn ko = (let (oldUsers, newUsers) = collectUsers d in userDiff oldUsers newUsers kn ko)"

definition toAdd :: "(string \<rightharpoonup> string) \<times> (string \<rightharpoonup> string) \<times> string list \<Rightarrow> (string \<rightharpoonup> string)" where
  "toAdd diff = fst diff"

definition toUpdate :: "(string \<rightharpoonup> string) \<times> (string \<rightharpoonup> string) \<times> string list \<Rightarrow> (string \<rightharpoonup> string)" where
  "toUpdate diff = fst (snd diff)"

definition toRemove :: "(string \<rightharpoonup> string) \<times> (string \<rightharpoonup> string) \<times> string list \<Rightarrow> string list" where
  "toRemove diff = snd (snd diff)"




fun is_roster_query :: "call \<Rightarrow> bool" where
  "is_roster_query (CallOrgUsers orgId) = True"
| "is_roster_query _ = False"

section \<open>Concrete inputs\<close>

text \<open>A remote service for running the code on concrete inputs. Its state is the list of
  the mutations it has received; it lists \<open>users\<close> and \<open>roster\<close>, and answers a mutation
  with \<open>answer\<close>.\<close>

definition fake_client :: "User list \<Rightarrow> OrgUser list \<Rightarrow> (call \<Rightarrow> error option) \<Rightarrow> call list Client" where
  "fake_client users roster answer =
     \<lparr>Users = (\<lambda>s. Inr users),
      OrgUsers = (\<lambda>orgId s. Inr roster),
      AddOrgUser = (\<lambda>orgId user role s.
        (answer (CallAddOrgUser orgId user role), s @ [CallAddOrgUser orgId user role])),
      UpdateOrgUser = (\<lambda>orgId userId role s.
        (answer (CallUpdateOrgUser orgId userId role), s @ [CallUpdateOrgUser orgId userId role])),
      RemoveOrgUser = (\<lambda>orgId userId s.
        (answer (CallRemoveOrgUser orgId userId), s @ [CallRemoveOrgUser orgId userId]))\<rparr>"

definition world0 :: "call list world" where
  "world0 = \<lparr>remote = [], calls = [], logs = []\<rparr>"

definition lists_of :: "string list \<Rightarrow> string list \<Rightarrow> string list \<Rightarrow> string \<Rightarrow> string list" where
  "lists_of admins editors viewers key =
     (if key = ''admins'' then admins else if key = ''editors'' then editors
      else if key = ''viewers'' then viewers else [])"

definition resource :: "(string \<Rightarrow> string list) \<Rightarrow> (string \<Rightarrow> string list) \<Rightarrow> ResourceData" where
  "resource old new =
     \<lparr>rd_Id = ''1'', rd_admin_user = ''admin'', rd_old = old, rd_new = new, rd_written = Map.empty\<rparr>"

definition directory_ab :: "User list" where
  "directory_ab = [\<lparr>User_Id = 1, User_Email = ''a''\<rparr>, \<lparr>User_Id = 2, User_Email = ''b''\<rparr>]"

text \<open>Scenario A of the specification.\<close>

definition observed_A :: "string \<rightharpoonup> string" where
  "observed_A = [''a'' \<mapsto> ''Editor'', ''b'' \<mapsto> ''Viewer'']"

definition desired_A :: "string \<rightharpoonup> string" where
  "desired_A = [''a'' \<mapsto> ''Admin'', ''c'' \<mapsto> ''Viewer'']"

definition d_A :: ResourceData where
  "d_A = resource (lists_of [] [''a''] [''b'']) (lists_of [''a''] [] [''c''])"

definition d_twice :: ResourceData where
  "d_twice = resource (lists_of [] [] []) (lists_of [''u'', ''v''] [] [''u''])"

definition directory_abc :: "User list" where
  "directory_abc =
     [\<lparr>User_Id = 1, User_Email = ''a''\<rparr>, \<lparr>User_Id = 2, User_Email = ''b''\<rparr>,
      \<lparr>User_Id = 3, User_Email = ''c''\<rparr>]"

definition fails_on :: "call \<Rightarrow> call \<Rightarrow> error option" where
  "fails_on bad c = (if c = bad then Some ''500 Internal Server Error'' else None)"

text \<open>One admin to add, nobody there yet.\<close>

definition d_add_a :: ResourceData where
  "d_add_a = resource (lists_of [] [] []) (lists_of [''a''] [] [])"

text \<open>Two admins to add and one viewer to remove.\<close>

definition d_add_ab_remove_c :: ResourceData where
  "d_add_ab_remove_c = resource (lists_of [] [] [''c'']) (lists_of [''a'', ''b''] [] [])"

text \<open>A service whose user list cannot be read.\<close>

definition down_client :: "call list Client" where
  "down_client = (fake_client [] [] (\<lambda>c. None))\<lparr>Users := \<lambda>s. Inl ''503 Service Unavailable''\<rparr>"



text \<open>The recorded state has \<^verbatim>\<open>a\<close> as an editor and so has the configuration.\<close>

definition d_stale :: ResourceData where
  "d_stale = resource (lists_of [] [''a''] []) (lists_of [] [''a''] [])"

definition users_xab :: "string \<rightharpoonup> string" where
  "users_xab = [''x'' \<mapsto> ''Admin'', ''a'' \<mapsto> ''Editor'', ''b'' \<mapsto> ''Viewer'']"

definition index_ab :: "string \<rightharpoonup> int" where
  "index_ab = [''a'' \<mapsto> 1, ''b'' \<mapsto> 2]"

text \<open>A roster with the default admin account and one viewer; nothing recorded, nothing
  configured; with and without the exemption.\<close>

definition roster_admin :: "OrgUser list" where
  "roster_admin =
     [\<lparr>OrgUser_Login = ''admin'', OrgUser_Email = ''admin@localhost'', OrgUser_Role = ''Admin''\<rparr>,
      \<lparr>OrgUser_Login = ''bob'', OrgUser_Email = ''b'', OrgUser_Role = ''Viewer''\<rparr>]"

definition directory_admin :: "User list" where
  "directory_admin =
     [\<lparr>User_Id = 1, User_Email = ''admin@localhost''\<rparr>, \<lparr>User_Id = 2, User_Email = ''b''\<rparr>]"

definition d_read :: ResourceData where
  "d_read = resource (lists_of [] [] []) (lists_of [] [] [])"

definition d_read_no_exempt :: ResourceData where
  "d_read_no_exempt = d_read\<lparr>rd_admin_user := ''''\<rparr>"

definition c_admin :: "call list Client" where
  "c_admin = fake_client directory_admin roster_admin (\<lambda>c. None)"

definition admin_entry :: OrgUser where
  "admin_entry =
     \<lparr>OrgUser_Login = ''admin'', OrgUser_Email = ''admin@localhost'', OrgUser_Role = ''Admin''\<rparr>"

text \<open>The resource data of the update that follows a read of that roster, with only
  \<^verbatim>\<open>b\<close> configured, as a viewer.\<close>

definition pass_exempt :: ResourceData where
  "pass_exempt =
     next_update (fst (snd (ReadUsers c_admin d_read [''Admin'', ''Editor'', ''Viewer''] world0)))
       (lists_of [] [] [''b''])"

definition pass_no_exempt :: ResourceData where
  "pass_no_exempt =
     next_update (fst (snd (ReadUsers c_admin d_read_no_exempt [''Admin'', ''Editor'', ''Viewer''] world0)))
       (lists_of [] [] [''b''])"

section \<open>Auxiliary facts\<close>

subsection \<open>Role names and iteration\<close>

lemma roleName_admins: "roleName ''admins'' = ''Admin''"
  by code_simp

lemma roleName_editors: "roleName ''editors'' = ''Editor''"
  by code_simp

lemma roleName_viewers: "roleName ''viewers'' = ''Viewer''"
  by code_simp

lemma assign_all_apply: "assign_all rn us m e = (if e \<in> set us then Some rn else m e)"
  unfolding assign_all_def by (induction us arbitrary: m) auto

lemma collectUsers_eq:
  "collectUsers d =
     (assign_all ''Viewer'' (rd_old d ''viewers'')
        (assign_all ''Editor'' (rd_old d ''editors'') (assign_all ''Admin'' (rd_old d ''admins'') Map.empty)),
      assign_all ''Viewer'' (rd_new d ''viewers'')
        (assign_all ''Editor'' (rd_new d ''editors'') (assign_all ''Admin'' (rd_new d ''admins'') Map.empty)))"
  by (simp add: collectUsers_def roles_def collectUsers_step_def GetChange_def
      roleName_admins roleName_editors roleName_viewers)

lemma range_entries_Nil: "range_entries m [] = []"
  by (simp add: range_entries_def)

lemma range_entries_Cons:
  "range_entries m (k # ks) =
     (case m k of None \<Rightarrow> range_entries m ks | Some v \<Rightarrow> (k, v) # range_entries m ks)"
  by (simp add: range_entries_def split: option.splits)

lemma set_range_entries: "set (range_entries m ks) = {(k, v). k \<in> set ks \<and> m k = Some v}"
  by (induction ks) (auto simp: range_entries_Nil range_entries_Cons split: option.splits)

lemma map_fst_range_entries: "map fst (range_entries m ks) = filter (\<lambda>k. m k \<noteq> None) ks"
  by (induction ks) (auto simp: range_entries_Nil range_entries_Cons split: option.splits)

lemma map_fst_range_entries_order: "range_order m ks \<Longrightarrow> map fst (range_entries m ks) = ks"
  by (auto simp: map_fst_range_entries range_order_def filter_id_conv)

lemma range_entries_consistent: "\<forall>(u, r) \<in> set (range_entries m ks). m u = Some r"
  by (auto simp: set_range_entries)

lemma fst_set_range_entries: "fst ` set (range_entries m ks) = set ks \<inter> dom m"
  by (force simp: set_range_entries)

lemma range_order_empty: "range_order Map.empty []"
  by (simp add: range_order_def)

subsection \<open>The two loops of userDiff\<close>

lemma userDiff_new_fold_add:
  "\<forall>(u, r) \<in> set es. newUsers u = Some r \<Longrightarrow>
   fst (foldl (userDiff_new oldUsers) (add0, update0) es) e =
     (if e \<in> fst ` set es \<and> oldUsers e = None then newUsers e else add0 e)"
proof (induction es arbitrary: add0 update0)
  case Nil
  then show ?case by simp
next
  case (Cons x es)
  obtain u r where x: "x = (u, r)" by (cases x)
  from Cons.prems x have ur: "newUsers u = Some r" and rest: "\<forall>(u, r) \<in> set es. newUsers u = Some r"
    by auto
  show ?case
    using Cons.IH[OF rest] ur x by (auto simp: userDiff_new_def split: option.splits)
qed

lemma userDiff_new_fold_update:
  "\<forall>(u, r) \<in> set es. newUsers u = Some r \<Longrightarrow>
   snd (foldl (userDiff_new oldUsers) (add0, update0) es) e =
     (if e \<in> fst ` set es \<and> oldUsers e \<noteq> None \<and> oldUsers e \<noteq> newUsers e then newUsers e
      else update0 e)"
proof (induction es arbitrary: add0 update0)
  case Nil
  then show ?case by simp
next
  case (Cons x es)
  obtain u r where x: "x = (u, r)" by (cases x)
  from Cons.prems x have ur: "newUsers u = Some r" and rest: "\<forall>(u, r) \<in> set es. newUsers u = Some r"
    by auto
  show ?case
    using Cons.IH[OF rest] ur x by (auto simp: userDiff_new_def split: option.splits)
qed

lemma userDiff_old_fold:
  "foldl (userDiff_old newUsers) acc es = acc @ filter (\<lambda>u. newUsers u = None) (map fst es)"
  by (induction es arbitrary: acc) (auto simp: userDiff_old_def split: option.splits)

lemma userDiff_add:
  "fst (userDiff oldUsers newUsers kn ko) e =
     (if e \<in> set kn \<and> oldUsers e = None then newUsers e else None)"
  using userDiff_new_fold_add[where es="range_entries newUsers kn" and newUsers=newUsers
      and oldUsers=oldUsers and ?add0.0=Map.empty and ?update0.0=Map.empty and e=e,
      OF range_entries_consistent]
  by (auto simp: userDiff_def Let_def split_beta fst_set_range_entries)

lemma userDiff_update:
  "fst (snd (userDiff oldUsers newUsers kn ko)) e =
     (if e \<in> set kn \<and> oldUsers e \<noteq> None \<and> oldUsers e \<noteq> newUsers e then newUsers e else None)"
  using userDiff_new_fold_update[where es="range_entries newUsers kn" and newUsers=newUsers
      and oldUsers=oldUsers and ?add0.0=Map.empty and ?update0.0=Map.empty and e=e,
      OF range_entries_consistent]
  by (auto simp: userDiff_def Let_def split_beta fst_set_range_entries)

lemma userDiff_remove:
  "snd (snd (userDiff oldUsers newUsers kn ko)) =
     filter (\<lambda>u. oldUsers u \<noteq> None \<and> newUsers u = None) ko"
  by (simp add: userDiff_def Let_def split_beta userDiff_old_fold map_fst_range_entries conj_commute)

subsection \<open>The three phases\<close>

lemma phase_trace_Nil: "phase_trace [] [] None"
  by (simp add: phase_trace_def)

lemma phase_trace_fail: "phase_trace (c # all) [(c, Some e)] (Some e)"
  by (simp add: phase_trace_def)

lemma phase_trace_ok: "phase_trace all seg res \<Longrightarrow> phase_trace (c # all) ((c, None) # seg) res"
  by (auto simp: phase_trace_def)

lemma phase_trace_nonempty: "phase_trace all seg res \<Longrightarrow> all \<noteq> [] \<Longrightarrow> seg \<noteq> []"
  by (auto simp: phase_trace_def)

lemma do_AddOrgUser_effect:
  "do_AddOrgUser c orgId user role w = (err, w') \<Longrightarrow>
   calls w' = calls w @ [(CallAddOrgUser orgId user role, err)] \<and> logs w' = logs w"
  by (auto simp: do_AddOrgUser_def split_beta)

lemma do_UpdateOrgUser_effect:
  "do_UpdateOrgUser c orgId userId role w = (err, w') \<Longrightarrow>
   calls w' = calls w @ [(CallUpdateOrgUser orgId userId role, err)] \<and> logs w' = logs w"
  by (auto simp: do_UpdateOrgUser_def split_beta)

lemma do_RemoveOrgUser_effect:
  "do_RemoveOrgUser c orgId userId w = (err, w') \<Longrightarrow>
   calls w' = calls w @ [(CallRemoveOrgUser orgId userId, err)] \<and> logs w' = logs w"
  by (auto simp: do_RemoveOrgUser_def split_beta)

lemma skip_warnings_Nil: "skip_warnings doing um [] = []"
  by (simp add: skip_warnings_def)

lemma skip_warnings_Cons:
  "skip_warnings doing um (u # us) =
     (case um u of None \<Rightarrow> warn_skip doing u # skip_warnings doing um us
      | Some _ \<Rightarrow> skip_warnings doing um us)"
  by (simp add: skip_warnings_def split: option.splits)

lemma phase_effect_done: "phase_effect w w [] [] None"
  by (simp add: phase_effect_def phase_trace_Nil)

lemma phase_effect_skip:
  assumes "phase_effect (log_Printf line w) w' all warns res"
  shows "phase_effect w w' all (line # warns) res"
proof -
  from assms obtain seg ls where
    s: "calls w' = calls w @ seg" "logs w' = logs w @ line # ls" "phase_trace all seg res"
      "prefix ls warns" "res = None \<longrightarrow> ls = warns"
    unfolding phase_effect_def log_Printf_def by auto
  show ?thesis
    unfolding phase_effect_def
    using s by (intro exI[of _ seg] exI[of _ "line # ls"]) simp
qed

lemma phase_effect_fail:
  assumes "calls w' = calls w @ [(c, Some e)]" and "logs w' = logs w"
  shows "phase_effect w w' (c # all) warns (Some e)"
  unfolding phase_effect_def
  using assms by (intro exI[of _ "[(c, Some e)]"] exI[of _ "[]"]) (simp add: phase_trace_fail)

lemma phase_effect_ok:
  assumes "calls w1 = calls w @ [(c, None)]" and "logs w1 = logs w"
    and "phase_effect w1 w' all warns res"
  shows "phase_effect w w' (c # all) warns res"
proof -
  from assms(3) obtain seg ls where
    s: "calls w' = calls w1 @ seg" "logs w' = logs w1 @ ls" "phase_trace all seg res"
      "prefix ls warns" "res = None \<longrightarrow> ls = warns"
    unfolding phase_effect_def by auto
  show ?thesis
    unfolding phase_effect_def
    using s assms(1,2) by (intro exI[of _ "(c, None) # seg"] exI[of _ ls]) (simp add: phase_trace_ok)
qed

lemma addUsers_loop_effect:
  "phase_effect w (snd (addUsers_loop c orgId um es w)) (add_calls orgId um es)
     (skip_warnings ''adding'' um (map fst es)) (fst (addUsers_loop c orgId um es w))"
proof (induction es arbitrary: w)
  case Nil
  show ?case by (simp add: phase_effect_done skip_warnings_Nil)
next
  case (Cons x es)
  obtain user role where x: "x = (user, role)" by (cases x)
  show ?case
  proof (cases "um user")
    case None
    then show ?thesis
      using Cons.IH[of "log_Printf (warn_skip ''adding'' user) w"] x
      by (simp add: skip_warnings_Cons phase_effect_skip)
  next
    case (Some userId)
    obtain err w' where step: "do_AddOrgUser c orgId user role w = (err, w')"
      by (cases "do_AddOrgUser c orgId user role w")
    note eff = do_AddOrgUser_effect[OF step]
    show ?thesis
    proof (cases err)
      case (Some e)
      then show ?thesis
        using \<open>um user = Some userId\<close> x step eff
        by (simp add: skip_warnings_Cons phase_effect_fail)
    next
      case None
      have "calls w' = calls w @ [(CallAddOrgUser orgId user role, None)]" and "logs w' = logs w"
        using eff None by simp_all
      from phase_effect_ok[OF this Cons.IH[of w']] show ?thesis
        using None \<open>um user = Some userId\<close> x step
        by (simp add: skip_warnings_Cons)
    qed
  qed
qed

lemma updateUsers_loop_effect:
  "phase_effect w (snd (updateUsers_loop c orgId um es w)) (update_calls orgId um es)
     (skip_warnings ''updating'' um (map fst es)) (fst (updateUsers_loop c orgId um es w))"
proof (induction es arbitrary: w)
  case Nil
  show ?case by (simp add: phase_effect_done skip_warnings_Nil)
next
  case (Cons x es)
  obtain user role where x: "x = (user, role)" by (cases x)
  show ?case
  proof (cases "um user")
    case None
    then show ?thesis
      using Cons.IH[of "log_Printf (warn_skip ''updating'' user) w"] x
      by (simp add: skip_warnings_Cons phase_effect_skip)
  next
    case (Some userId)
    obtain err w' where step: "do_UpdateOrgUser c orgId userId role w = (err, w')"
      by (cases "do_UpdateOrgUser c orgId userId role w")
    note eff = do_UpdateOrgUser_effect[OF step]
    show ?thesis
    proof (cases err)
      case (Some e)
      then show ?thesis
        using \<open>um user = Some userId\<close> x step eff
        by (simp add: skip_warnings_Cons phase_effect_fail)
    next
      case None
      have "calls w' = calls w @ [(CallUpdateOrgUser orgId userId role, None)]" and "logs w' = logs w"
        using eff None by simp_all
      from phase_effect_ok[OF this Cons.IH[of w']] show ?thesis
        using None \<open>um user = Some userId\<close> x step
        by (simp add: skip_warnings_Cons)
    qed
  qed
qed

lemma removeUsers_effect:
  "phase_effect w (snd (removeUsers c orgId users um w)) (remove_calls orgId um users)
     (skip_warnings ''deleting'' um users) (fst (removeUsers c orgId users um w))"
proof (induction users arbitrary: w)
  case Nil
  show ?case by (simp add: phase_effect_done skip_warnings_Nil)
next
  case (Cons user users)
  show ?case
  proof (cases "um user")
    case None
    then show ?thesis
      using Cons.IH[of "log_Printf (warn_skip ''deleting'' user) w"]
      by (simp add: skip_warnings_Cons phase_effect_skip)
  next
    case (Some userId)
    obtain err w' where step: "do_RemoveOrgUser c orgId userId w = (err, w')"
      by (cases "do_RemoveOrgUser c orgId userId w")
    note eff = do_RemoveOrgUser_effect[OF step]
    show ?thesis
    proof (cases err)
      case (Some e)
      then show ?thesis
        using \<open>um user = Some userId\<close> step eff
        by (simp add: skip_warnings_Cons phase_effect_fail)
    next
      case None
      have "calls w' = calls w @ [(CallRemoveOrgUser orgId userId, None)]" and "logs w' = logs w"
        using eff None by simp_all
      from phase_effect_ok[OF this Cons.IH[of w']] show ?thesis
        using None \<open>um user = Some userId\<close> step
        by (simp add: skip_warnings_Cons)
    qed
  qed
qed

subsection \<open>Running the code on concrete inputs\<close>

lemma ParseInt_1: "ParseInt ''1'' = 1"
  by (simp add: ParseInt_def ParseUint_def maxUint64_def)

lemma rd_Id_resource: "ParseInt (rd_Id (resource old new)) = 1"
  by (simp add: resource_def ParseInt_1)

lemma UpdateUsers_unfold:
  "UpdateUsers c d kn ko ka ku w =
     (case userMap c w of
        ((um, Some e), w1) \<Rightarrow> (Some e, w1)
      | ((um, None), w1) \<Rightarrow>
          (None,
           snd (removeUsers c (ParseInt (rd_Id d)) (toRemove (pass_diff d kn ko)) um
             (snd (updateUsers c (ParseInt (rd_Id d)) (toUpdate (pass_diff d kn ko)) um ku
               (snd (addUsers c (ParseInt (rd_Id d)) (toAdd (pass_diff d kn ko)) um ka w1)))))))"
  by (simp add: UpdateUsers_def pass_diff_def toAdd_def toUpdate_def toRemove_def Let_def split_beta
      split: option.splits)

lemma userMap_fake:
  "userMap (fake_client users roster answer) w =
     ((userMap_fill users, None), w\<lparr>calls := calls w @ [(CallUsers, None)]\<rparr>)"
  by (simp add: userMap_def do_Users_def fake_client_def err_of_def)

lemma do_AddOrgUser_fake:
  "do_AddOrgUser (fake_client users roster answer) orgId user role w =
     (answer (CallAddOrgUser orgId user role),
      w\<lparr>remote := remote w @ [CallAddOrgUser orgId user role],
        calls := calls w @ [(CallAddOrgUser orgId user role, answer (CallAddOrgUser orgId user role))]\<rparr>)"
  by (simp add: do_AddOrgUser_def fake_client_def)

lemma do_UpdateOrgUser_fake:
  "do_UpdateOrgUser (fake_client users roster answer) orgId userId role w =
     (answer (CallUpdateOrgUser orgId userId role),
      w\<lparr>remote := remote w @ [CallUpdateOrgUser orgId userId role],
        calls := calls w @ [(CallUpdateOrgUser orgId userId role, answer (CallUpdateOrgUser orgId userId role))]\<rparr>)"
  by (simp add: do_UpdateOrgUser_def fake_client_def)

lemma do_RemoveOrgUser_fake:
  "do_RemoveOrgUser (fake_client users roster answer) orgId userId w =
     (answer (CallRemoveOrgUser orgId userId),
      w\<lparr>remote := remote w @ [CallRemoveOrgUser orgId userId],
        calls := calls w @ [(CallRemoveOrgUser orgId userId, answer (CallRemoveOrgUser orgId userId))]\<rparr>)"
  by (simp add: do_RemoveOrgUser_def fake_client_def)

lemmas run_simps =
  UpdateUsers_unfold userMap_fake toAdd_def toUpdate_def toRemove_def
  addUsers_def updateUsers_def range_entries_Cons range_entries_Nil
  do_AddOrgUser_fake do_UpdateOrgUser_fake do_RemoveOrgUser_fake log_Printf_def world0_def

lemma fill_ab: "userMap_fill directory_ab = [''a'' \<mapsto> 1, ''b'' \<mapsto> 2]"
  by (simp add: userMap_fill_def directory_ab_def)

lemma range_order_observed_A: "range_order observed_A [''b'', ''a'']"
  by (auto simp: range_order_def observed_A_def)

lemma range_order_desired_A: "range_order desired_A [''a'', ''c'']"
  by (auto simp: range_order_def desired_A_def)


subsection \<open>One pass of UpdateUsers\<close>

lemma userMap_ok:
  "Users c (remote w) = Inr users \<Longrightarrow>
   userMap c w = ((userMap_fill users, None), w\<lparr>calls := calls w @ [(CallUsers, None)]\<rparr>)"
  by (simp add: userMap_def do_Users_def err_of_def)

lemma userMap_fail:
  "Users c (remote w) = Inl e \<Longrightarrow>
   userMap c w = ((Map.empty, Some e), w\<lparr>calls := calls w @ [(CallUsers, Some e)]\<rparr>)"
  by (simp add: userMap_def do_Users_def err_of_def)

lemma phase_effect_calls:
  "phase_effect w w' all warns res \<Longrightarrow> \<exists>seg. calls w' = calls w @ seg \<and> phase_trace all seg res"
  by (auto simp: phase_effect_def)

lemma UpdateUsers_calls:
  assumes "Users c (remote w) = Inr users"
  shows "\<exists>A U R r1 r2 r3.
     calls (snd (UpdateUsers c d kn ko ka ku w)) = calls w @ [(CallUsers, None)] @ A @ U @ R \<and>
     phase_trace (add_calls (ParseInt (rd_Id d)) (userMap_fill users)
        (range_entries (toAdd (pass_diff d kn ko)) ka)) A r1 \<and>
     phase_trace (update_calls (ParseInt (rd_Id d)) (userMap_fill users)
        (range_entries (toUpdate (pass_diff d kn ko)) ku)) U r2 \<and>
     phase_trace (remove_calls (ParseInt (rd_Id d)) (userMap_fill users)
        (toRemove (pass_diff d kn ko))) R r3"
proof -
  let ?org = "ParseInt (rd_Id d)" and ?um = "userMap_fill users" and ?D = "pass_diff d kn ko"
  let ?w1 = "w\<lparr>calls := calls w @ [(CallUsers, None)]\<rparr>"
  let ?w2 = "snd (addUsers c ?org (toAdd ?D) ?um ka ?w1)"
  let ?w3 = "snd (updateUsers c ?org (toUpdate ?D) ?um ku ?w2)"
  let ?w4 = "snd (removeUsers c ?org (toRemove ?D) ?um ?w3)"
  have res: "snd (UpdateUsers c d kn ko ka ku w) = ?w4"
    by (simp add: UpdateUsers_unfold userMap_ok[OF assms])
  obtain A r1 where A: "calls ?w2 = calls ?w1 @ A"
      "phase_trace (add_calls ?org ?um (range_entries (toAdd ?D) ka)) A r1"
    using phase_effect_calls[OF addUsers_loop_effect] unfolding addUsers_def by blast
  obtain U r2 where U: "calls ?w3 = calls ?w2 @ U"
      "phase_trace (update_calls ?org ?um (range_entries (toUpdate ?D) ku)) U r2"
    using phase_effect_calls[OF updateUsers_loop_effect] unfolding updateUsers_def by blast
  obtain R r3 where R: "calls ?w4 = calls ?w3 @ R"
      "phase_trace (remove_calls ?org ?um (toRemove ?D)) R r3"
    using phase_effect_calls[OF removeUsers_effect] by blast
  have "calls ?w4 = calls w @ [(CallUsers, None)] @ A @ U @ R"
    using A(1) U(1) R(1) by simp
  then show ?thesis
    using res A(2) U(2) R(2) by metis
qed

lemma in_add_calls:
  "x \<in> set (add_calls orgId um es) \<longleftrightarrow>
     (\<exists>e r. x = CallAddOrgUser orgId e r \<and> (e, r) \<in> set es \<and> um e \<noteq> None)"
proof (induction es)
  case Nil
  show ?case by simp
next
  case (Cons p es)
  obtain user role where p: "p = (user, role)" by (cases p)
  show ?case
    unfolding p using Cons by (cases "um user") auto
qed

lemma in_update_calls:
  "x \<in> set (update_calls orgId um es) \<longleftrightarrow>
     (\<exists>e i r. x = CallUpdateOrgUser orgId i r \<and> (e, r) \<in> set es \<and> um e = Some i)"
proof (induction es)
  case Nil
  show ?case by simp
next
  case (Cons p es)
  obtain user role where p: "p = (user, role)" by (cases p)
  show ?case
  proof (cases "um user")
    case None
    then show ?thesis unfolding p using Cons by auto
  next
    case (Some a)
    have "x \<in> set (update_calls orgId um ((user, role) # es)) \<longleftrightarrow>
        x = CallUpdateOrgUser orgId a role \<or> x \<in> set (update_calls orgId um es)"
      using Some by simp
    also have "\<dots> \<longleftrightarrow> x = CallUpdateOrgUser orgId a role \<or>
        (\<exists>e i r. x = CallUpdateOrgUser orgId i r \<and> (e, r) \<in> set es \<and> um e = Some i)"
      using Cons by simp
    also have "\<dots> \<longleftrightarrow>
        (\<exists>e i r. x = CallUpdateOrgUser orgId i r \<and> (e, r) \<in> set ((user, role) # es) \<and> um e = Some i)"
      using Some by auto
    finally show ?thesis unfolding p .
  qed
qed

lemma in_remove_calls:
  "x \<in> set (remove_calls orgId um us) \<longleftrightarrow>
     (\<exists>e i. x = CallRemoveOrgUser orgId i \<and> e \<in> set us \<and> um e = Some i)"
proof (induction us)
  case Nil
  show ?case by simp
next
  case (Cons user us)
  show ?case
  proof (cases "um user")
    case None
    then show ?thesis using Cons by auto
  next
    case (Some a)
    have "x \<in> set (remove_calls orgId um (user # us)) \<longleftrightarrow>
        x = CallRemoveOrgUser orgId a \<or> x \<in> set (remove_calls orgId um us)"
      using Some by simp
    also have "\<dots> \<longleftrightarrow> x = CallRemoveOrgUser orgId a \<or>
        (\<exists>e i. x = CallRemoveOrgUser orgId i \<and> e \<in> set us \<and> um e = Some i)"
      using Cons by simp
    also have "\<dots> \<longleftrightarrow>
        (\<exists>e i. x = CallRemoveOrgUser orgId i \<and> e \<in> set (user # us) \<and> um e = Some i)"
      using Some by auto
    finally show ?thesis .
  qed
qed

lemma set_add_calls:
  "set (add_calls orgId um es) = {CallAddOrgUser orgId e r | e r. (e, r) \<in> set es \<and> um e \<noteq> None}"
  using in_add_calls[of _ orgId um es] by blast

lemma set_update_calls:
  "set (update_calls orgId um es) =
     {CallUpdateOrgUser orgId i r | e i r. (e, r) \<in> set es \<and> um e = Some i}"
  using in_update_calls[of _ orgId um es] by blast

lemma set_remove_calls:
  "set (remove_calls orgId um us) = {CallRemoveOrgUser orgId i | e i. e \<in> set us \<and> um e = Some i}"
  using in_remove_calls[of _ orgId um us] by blast

lemma mem_range_entries_order:
  "range_order m ks \<Longrightarrow> (e, r) \<in> set (range_entries m ks) \<longleftrightarrow> m e = Some r"
  by (auto simp: set_range_entries range_order_def)

subsection \<open>More concrete inputs\<close>

lemmas diff_simps =
  pass_diff_def collectUsers_eq assign_all_def resource_def lists_of_def userDiff_def
  range_entries_Cons range_entries_Nil userDiff_new_def userDiff_old_def

lemma fill_abc: "userMap_fill directory_abc = [''a'' \<mapsto> 1, ''b'' \<mapsto> 2, ''c'' \<mapsto> 3]"
  by (simp add: userMap_fill_def directory_abc_def)

lemma diff_add_a: "pass_diff d_add_a [''a''] [] = ([''a'' \<mapsto> ''Admin''], Map.empty, [])"
  by (simp add: d_add_a_def diff_simps)

lemma rd_Id_add_a: "ParseInt (rd_Id d_add_a) = 1"
  by (simp add: d_add_a_def rd_Id_resource)

lemma diff_add_ab_remove_c:
  "pass_diff d_add_ab_remove_c [''a'', ''b''] [''c''] =
     ([''a'' \<mapsto> ''Admin'', ''b'' \<mapsto> ''Admin''], Map.empty, [''c''])"
  by (simp add: d_add_ab_remove_c_def diff_simps)

lemma rd_Id_add_ab_remove_c: "ParseInt (rd_Id d_add_ab_remove_c) = 1"
  by (simp add: d_add_ab_remove_c_def rd_Id_resource)

lemma CreateUsers_unfold:
  "CreateUsers c d kn w =
     (case userMap c w of
        ((um, Some e), w1) \<Rightarrow> (Some e, w1)
      | ((um, None), w1) \<Rightarrow> addUsers c (ParseInt (rd_Id d)) (snd (collectUsers d)) um kn w1)"
  by (simp add: CreateUsers_def split_beta split: option.splits)

lemma users_fake: "Users (fake_client users roster answer) s = Inr users"
  by (simp add: fake_client_def)

subsection \<open>Kinds of calls and the index\<close>




lemma is_add_add_calls: "x \<in> set (add_calls orgId um es) \<Longrightarrow> is_add x"
  by (auto simp: in_add_calls)

lemma is_update_update_calls: "x \<in> set (update_calls orgId um es) \<Longrightarrow> is_update x"
  by (auto simp: in_update_calls)

lemma is_remove_remove_calls: "x \<in> set (remove_calls orgId um us) \<Longrightarrow> is_remove x"
  by (auto simp: in_remove_calls)

lemma phase_trace_prefix: "phase_trace all seg res \<Longrightarrow> prefix (map fst seg) all"
  by (simp add: phase_trace_def)

lemma phase_trace_subset: "phase_trace all seg res \<Longrightarrow> set (map fst seg) \<subseteq> set all"
  using phase_trace_prefix set_mono_prefix by blast


lemma phase_trace_filter_complete:
  "phase_trace all seg None \<Longrightarrow> filter P (map fst seg) = filter P all"
  by (simp add: phase_trace_def)

lemma filter_empty_subset: "set xs \<subseteq> set ys \<Longrightarrow> filter P ys = [] \<Longrightarrow> filter P xs = []"
  by (auto simp: filter_empty_conv)







lemma pass_diff_userDiff:
  "pass_diff d kn ko = userDiff (fst (collectUsers d)) (snd (collectUsers d)) kn ko"
  by (simp add: pass_diff_def split_beta)


lemma filter_none: "(\<And>x. x \<in> set xs \<Longrightarrow> \<not> P x) \<Longrightarrow> filter P xs = []"
  by (simp add: filter_empty_conv)









lemma entries_xab:
  "range_entries users_xab [''x'', ''a'', ''b''] = [(''x'', ''Admin''), (''a'', ''Editor''), (''b'', ''Viewer'')]"
  by (simp add: users_xab_def range_entries_Cons range_entries_Nil)

subsection \<open>UpdateUsers and the roster query\<close>

lemma addUsers_loop_OrgUsers:
  "addUsers_loop (c\<lparr>OrgUsers := f\<rparr>) orgId um es w = addUsers_loop c orgId um es w"
  by (induction c orgId um es w rule: addUsers_loop.induct)
     (auto simp: do_AddOrgUser_def split: option.splits prod.splits)

lemma updateUsers_loop_OrgUsers:
  "updateUsers_loop (c\<lparr>OrgUsers := f\<rparr>) orgId um es w = updateUsers_loop c orgId um es w"
  by (induction c orgId um es w rule: updateUsers_loop.induct)
     (auto simp: do_UpdateOrgUser_def split: option.splits prod.splits)

lemma removeUsers_OrgUsers:
  "removeUsers (c\<lparr>OrgUsers := f\<rparr>) orgId us um w = removeUsers c orgId us um w"
  by (induction c orgId us um w rule: removeUsers.induct)
     (auto simp: do_RemoveOrgUser_def split: option.splits prod.splits)

lemma userMap_OrgUsers: "userMap (c\<lparr>OrgUsers := f\<rparr>) w = userMap c w"
  by (simp add: userMap_def do_Users_def)

lemma UpdateUsers_OrgUsers:
  "UpdateUsers (c\<lparr>OrgUsers := f\<rparr>) d kn ko ka ku w = UpdateUsers c d kn ko ka ku w"
  by (simp add: UpdateUsers_unfold userMap_OrgUsers addUsers_def updateUsers_def
      addUsers_loop_OrgUsers updateUsers_loop_OrgUsers removeUsers_OrgUsers
      split: prod.splits option.splits)

lemma not_roster_query:
  "is_add x \<Longrightarrow> \<not> is_roster_query x"
  "is_update x \<Longrightarrow> \<not> is_roster_query x"
  "is_remove x \<Longrightarrow> \<not> is_roster_query x"
  by (cases x; simp)+

lemma phase_trace_no_roster_query:
  assumes "phase_trace all seg res" and "\<And>x. x \<in> set all \<Longrightarrow> \<not> is_roster_query x"
  shows "filter (\<lambda>p. is_roster_query (fst p)) seg = []"
proof (rule filter_none)
  fix p assume "p \<in> set seg"
  then have "fst p \<in> set (map fst seg)" by simp
  then have "fst p \<in> set all" using phase_trace_subset[OF assms(1)] by blast
  then show "\<not> is_roster_query (fst p)" using assms(2) by blast
qed

lemma UpdateUsers_no_roster_query:
  "filter (\<lambda>p. is_roster_query (fst p)) (calls (snd (UpdateUsers c d kn ko ka ku w))) =
   filter (\<lambda>p. is_roster_query (fst p)) (calls w)"
proof (cases "Users c (remote w)")
  case (Inl e)
  then show ?thesis
    by (simp add: UpdateUsers_unfold userMap_fail)
next
  case (Inr users)
  from UpdateUsers_calls[OF Inr] obtain A U R r1 r2 r3 where
    c: "calls (snd (UpdateUsers c d kn ko ka ku w)) = calls w @ [(CallUsers, None)] @ A @ U @ R"
    and pA: "phase_trace (add_calls (ParseInt (rd_Id d)) (userMap_fill users)
        (range_entries (toAdd (pass_diff d kn ko)) ka)) A r1"
    and pU: "phase_trace (update_calls (ParseInt (rd_Id d)) (userMap_fill users)
        (range_entries (toUpdate (pass_diff d kn ko)) ku)) U r2"
    and pR: "phase_trace (remove_calls (ParseInt (rd_Id d)) (userMap_fill users)
        (toRemove (pass_diff d kn ko))) R r3"
    by blast
  have "filter (\<lambda>p. is_roster_query (fst p)) A = []"
    using phase_trace_no_roster_query[OF pA] is_add_add_calls not_roster_query(1) by blast
  moreover have "filter (\<lambda>p. is_roster_query (fst p)) U = []"
    using phase_trace_no_roster_query[OF pU] is_update_update_calls not_roster_query(2) by blast
  moreover have "filter (\<lambda>p. is_roster_query (fst p)) R = []"
    using phase_trace_no_roster_query[OF pR] is_remove_remove_calls not_roster_query(3) by blast
  ultimately show ?thesis
    using c by simp
qed

lemma diff_stale: "pass_diff d_stale [''a''] [''a''] = (Map.empty, Map.empty, [])"
  by (simp add: d_stale_def diff_simps)

lemma rd_Id_stale: "ParseInt (rd_Id d_stale) = 1"
  by (simp add: d_stale_def rd_Id_resource)

subsection \<open>ReadUsers\<close>

lemma key_Admin: "ToLower ''Admin'' @ ''s'' = ''admins''"
  by code_simp

lemma key_Editor: "ToLower ''Editor'' @ ''s'' = ''editors''"
  by code_simp

lemma key_Viewer: "ToLower ''Viewer'' @ ''s'' = ''viewers''"
  by code_simp

lemma collect_mono:
  "m0 k = Some l \<Longrightarrow>
   \<exists>l'. foldl (ReadUsers_collect g) m0 roster k = Some l' \<and> set l \<subseteq> set l'"
proof (induction roster arbitrary: m0 l)
  case Nil
  then show ?case by simp
next
  case (Cons x roster)
  have "\<exists>l1. ReadUsers_collect g m0 x k = Some l1 \<and> set l \<subseteq> set l1"
    using Cons.prems by (auto simp: ReadUsers_collect_def)
  then obtain l1 where l1: "ReadUsers_collect g m0 x k = Some l1" "set l \<subseteq> set l1" by blast
  from Cons.IH[of "ReadUsers_collect g m0 x" l1] l1(1) obtain l' where
    "foldl (ReadUsers_collect g) (ReadUsers_collect g m0 x) roster k = Some l'" "set l1 \<subseteq> set l'"
    by blast
  then show ?case using l1(2) by auto
qed

lemma collect_mem:
  "x \<in> set roster \<Longrightarrow> OrgUser_Login x \<noteq> g \<Longrightarrow>
   \<exists>v. foldl (ReadUsers_collect g) m0 roster (OrgUser_Role x) = Some v \<and> OrgUser_Email x \<in> set v"
proof (induction roster arbitrary: m0)
  case Nil
  then show ?case by simp
next
  case (Cons y roster)
  show ?case
  proof (cases "x = y")
    case True
    have "\<exists>l. ReadUsers_collect g m0 y (OrgUser_Role x) = Some l \<and> OrgUser_Email x \<in> set l"
      using True Cons.prems(2) by (simp add: ReadUsers_collect_def)
    then obtain l where l: "ReadUsers_collect g m0 y (OrgUser_Role x) = Some l" "OrgUser_Email x \<in> set l"
      by blast
    from collect_mono[of "ReadUsers_collect g m0 y" "OrgUser_Role x" l g roster] l show ?thesis by auto
  next
    case False
    then have "x \<in> set roster" using Cons.prems(1) by simp
    from Cons.IH[OF this Cons.prems(2), of "ReadUsers_collect g m0 y"] show ?thesis by simp
  qed
qed

lemma collect_sub:
  "foldl (ReadUsers_collect g) m0 roster k = Some v \<Longrightarrow> e \<in> set v \<Longrightarrow>
   (\<exists>l. m0 k = Some l \<and> e \<in> set l) \<or>
   (\<exists>x \<in> set roster. OrgUser_Email x = e \<and> OrgUser_Login x \<noteq> g \<and> OrgUser_Role x = k)"
proof (induction roster arbitrary: m0)
  case Nil
  then show ?case by simp
next
  case (Cons y roster)
  from Cons.IH[of "ReadUsers_collect g m0 y"] Cons.prems
  have "(\<exists>l. ReadUsers_collect g m0 y k = Some l \<and> e \<in> set l) \<or>
     (\<exists>x \<in> set roster. OrgUser_Email x = e \<and> OrgUser_Login x \<noteq> g \<and> OrgUser_Role x = k)"
    by simp
  then show ?case
  proof
    assume "\<exists>l. ReadUsers_collect g m0 y k = Some l \<and> e \<in> set l"
    then show ?thesis
      by (auto simp: ReadUsers_collect_def split: if_splits option.splits)
  next
    assume "\<exists>x \<in> set roster. OrgUser_Email x = e \<and> OrgUser_Login x \<noteq> g \<and> OrgUser_Role x = k"
    then show ?thesis by auto
  qed
qed

lemma collect_dom:
  "foldl (ReadUsers_collect g) m0 roster k \<noteq> None \<Longrightarrow>
   m0 k \<noteq> None \<or> (\<exists>x \<in> set roster. OrgUser_Login x \<noteq> g \<and> OrgUser_Role x = k)"
proof (induction roster arbitrary: m0)
  case Nil
  then show ?case by simp
next
  case (Cons y roster)
  from Cons.IH[of "ReadUsers_collect g m0 y"] Cons.prems
  have "ReadUsers_collect g m0 y k \<noteq> None \<or>
     (\<exists>x \<in> set roster. OrgUser_Login x \<noteq> g \<and> OrgUser_Role x = k)"
    by simp
  then show ?case
    by (auto simp: ReadUsers_collect_def split: if_splits)
qed

lemma roleMap_emails:
  assumes "ReadUsers_roleMap g roster k = Some v" and "e \<in> set v"
  shows "\<exists>x \<in> set roster. OrgUser_Email x = e \<and> OrgUser_Login x \<noteq> g \<and> OrgUser_Role x = k"
  using collect_sub[OF assms[unfolded ReadUsers_roleMap_def]] by (auto split: if_splits)

lemma roleMap_mem:
  "x \<in> set roster \<Longrightarrow> OrgUser_Login x \<noteq> g \<Longrightarrow>
   \<exists>v. ReadUsers_roleMap g roster (OrgUser_Role x) = Some v \<and> OrgUser_Email x \<in> set v"
  unfolding ReadUsers_roleMap_def by (rule collect_mem)

lemma roleMap_initial:
  "k \<in> {''Admin'', ''Editor'', ''Viewer''} \<Longrightarrow> ReadUsers_roleMap g roster k \<noteq> None"
proof -
  assume k: "k \<in> {''Admin'', ''Editor'', ''Viewer''}"
  have "\<exists>l. [''Admin'' \<mapsto> [], ''Editor'' \<mapsto> [], ''Viewer'' \<mapsto> ([] :: string list)] k = Some l"
    using k by auto
  then obtain l where "[''Admin'' \<mapsto> [], ''Editor'' \<mapsto> [], ''Viewer'' \<mapsto> ([] :: string list)] k = Some l"
    by blast
  from collect_mono[of "[''Admin'' \<mapsto> [], ''Editor'' \<mapsto> [], ''Viewer'' \<mapsto> []]" k l g roster] this
  show ?thesis
    by (auto simp: ReadUsers_roleMap_def)
qed

lemma roleMap_dom:
  assumes "ReadUsers_roleMap g roster k \<noteq> None"
    and "\<forall>x \<in> set roster. OrgUser_Role x \<in> {''Admin'', ''Editor'', ''Viewer''}"
  shows "k \<in> {''Admin'', ''Editor'', ''Viewer''}"
  using collect_dom[OF assms(1)[unfolded ReadUsers_roleMap_def]] assms(2)
  by (auto split: if_splits)

lemma Set_fold_fields:
  "rd_old (foldl (\<lambda>d (k, v). Set_list (ToLower k @ ''s'') v d) d es) = rd_old d \<and>
   rd_Id (foldl (\<lambda>d (k, v). Set_list (ToLower k @ ''s'') v d) d es) = rd_Id d \<and>
   rd_admin_user (foldl (\<lambda>d (k, v). Set_list (ToLower k @ ''s'') v d) d es) = rd_admin_user d"
  by (induction es arbitrary: d) (auto simp: Set_list_def)

lemma Set_list_written_same:
  "key \<in> {''admins'', ''editors'', ''viewers''} \<Longrightarrow> rd_written (Set_list key v d) key = Some v"
  by (simp add: Set_list_def)

lemma Set_list_written_other:
  "key' \<noteq> key \<Longrightarrow> rd_written (Set_list key' v d) key = rd_written d key"
  by (simp add: Set_list_def)

lemma Set_fold_written:
  assumes "key \<in> {''admins'', ''editors'', ''viewers''}"
    and "(k0, v0) \<in> set es" and "ToLower k0 @ ''s'' = key"
  shows "\<exists>k v. (k, v) \<in> set es \<and> ToLower k @ ''s'' = key \<and>
     rd_written (foldl (\<lambda>d (k, v). Set_list (ToLower k @ ''s'') v d) d es) key = Some v"
  using assms(2)
proof (induction es rule: rev_induct)
  case Nil
  then show ?case by simp
next
  case (snoc p es)
  obtain k v where p: "p = (k, v)" by (cases p)
  show ?case
  proof (cases "ToLower k @ ''s'' = key")
    case True
    then have "rd_written (foldl (\<lambda>d (k, v). Set_list (ToLower k @ ''s'') v d) d (es @ [p])) key = Some v"
      using assms(1) p by (simp add: Set_list_written_same)
    then show ?thesis using True p by auto
  next
    case False
    then have "(k0, v0) \<in> set es"
      using snoc.prems p assms(3) by auto
    from snoc.IH[OF this] obtain k' v' where
      kv: "(k', v') \<in> set es" "ToLower k' @ ''s'' = key"
        "rd_written (foldl (\<lambda>d (k, v). Set_list (ToLower k @ ''s'') v d) d es) key = Some v'"
      by blast
    have "rd_written (foldl (\<lambda>d (k, v). Set_list (ToLower k @ ''s'') v d) d (es @ [p])) key = Some v'"
      using kv(3) False p by (simp add: Set_list_written_other)
    then show ?thesis using kv(1,2) by auto
  qed
qed

lemma ReadUsers_ok:
  "OrgUsers c (ParseInt (rd_Id d)) (remote w) = Inr roster \<Longrightarrow>
   ReadUsers c d ks w =
     (None,
      foldl (\<lambda>d (k, v). Set_list (ToLower k @ ''s'') v d) d
        (range_entries (ReadUsers_roleMap (rd_admin_user d) roster) ks),
      w\<lparr>calls := calls w @ [(CallOrgUsers (ParseInt (rd_Id d)), None)]\<rparr>)"
  by (simp add: ReadUsers_def do_OrgUsers_def err_of_def)

lemma key_of_role:
  "k \<in> {''Admin'', ''Editor'', ''Viewer''} \<Longrightarrow> ToLower k @ ''s'' \<in> {''admins'', ''editors'', ''viewers''}"
  using key_Admin key_Editor key_Viewer by auto

lemma key_of_role_inj:
  "k \<in> {''Admin'', ''Editor'', ''Viewer''} \<Longrightarrow> k' \<in> {''Admin'', ''Editor'', ''Viewer''} \<Longrightarrow>
   ToLower k @ ''s'' = ToLower k' @ ''s'' \<Longrightarrow> k = k'"
  using key_Admin key_Editor key_Viewer by auto

text \<open>What the read records for each of the three attributes is one of the lists of roleMap.\<close>

lemma ReadUsers_recorded:
  assumes roster: "OrgUsers c (ParseInt (rd_Id d)) (remote w) = Inr roster"
    and ks: "range_order (ReadUsers_roleMap (rd_admin_user d) roster) ks"
    and r: "r \<in> {''Admin'', ''Editor'', ''Viewer''}"
  shows "\<exists>k v. ReadUsers_roleMap (rd_admin_user d) roster k = Some v \<and>
     ToLower k @ ''s'' = ToLower r @ ''s'' \<and>
     recorded_state (fst (snd (ReadUsers c d ks w))) (ToLower r @ ''s'') = v"
proof -
  let ?rm = "ReadUsers_roleMap (rd_admin_user d) roster"
  from roleMap_initial[OF r] obtain v0 where v0: "?rm r = Some v0" by blast
  then have "r \<in> set ks" using ks by (auto simp: range_order_def)
  then have in0: "(r, v0) \<in> set (range_entries ?rm ks)"
    using v0 by (simp add: set_range_entries)
  from Set_fold_written[OF key_of_role[OF r] in0 refl, of d] obtain k v where
    kv: "(k, v) \<in> set (range_entries ?rm ks)" "ToLower k @ ''s'' = ToLower r @ ''s''"
      "rd_written (foldl (\<lambda>d (k, v). Set_list (ToLower k @ ''s'') v d) d (range_entries ?rm ks))
         (ToLower r @ ''s'') = Some v"
    by blast
  have "?rm k = Some v" using kv(1) by (simp add: set_range_entries)
  moreover have "recorded_state (fst (snd (ReadUsers c d ks w))) (ToLower r @ ''s'') = v"
    using kv(3) by (simp add: ReadUsers_ok[OF roster] recorded_state_def)
  ultimately show ?thesis using kv(2) by blast
qed

lemma observed_next_update:
  "fst (collectUsers (next_update d config)) e =
     (if e \<in> set (recorded_state d ''viewers'') then Some ''Viewer''
      else if e \<in> set (recorded_state d ''editors'') then Some ''Editor''
      else if e \<in> set (recorded_state d ''admins'') then Some ''Admin''
      else None)"
  by (simp add: collectUsers_eq assign_all_apply next_update_def)

lemma observed_next_update_iff:
  "fst (collectUsers (next_update d config)) e \<noteq> None \<longleftrightarrow>
     (\<exists>r \<in> {''Admin'', ''Editor'', ''Viewer''}. e \<in> set (recorded_state d (ToLower r @ ''s'')))"
  by (auto simp: observed_next_update key_Admin key_Editor key_Viewer)

subsection \<open>A read followed by an update, on a concrete roster\<close>

lemma lower_roles:
  "ToLower ''Admin'' = ''admin''" "ToLower ''Editor'' = ''editor''" "ToLower ''Viewer'' = ''viewer''"
  by code_simp+

lemma roleMap_admin_exempt:
  "ReadUsers_roleMap ''admin'' roster_admin = [''Admin'' \<mapsto> [], ''Editor'' \<mapsto> [], ''Viewer'' \<mapsto> [''b'']]"
  by (simp add: ReadUsers_roleMap_def ReadUsers_collect_def roster_admin_def)

lemma roleMap_admin_no_exempt:
  "ReadUsers_roleMap '''' roster_admin =
     [''Admin'' \<mapsto> [''admin@localhost''], ''Editor'' \<mapsto> [], ''Viewer'' \<mapsto> [''b'']]"
  by (simp add: ReadUsers_roleMap_def ReadUsers_collect_def roster_admin_def fun_upd_twist)

lemma orgusers_fake: "OrgUsers (fake_client users roster answer) orgId s = Inr roster"
  by (simp add: fake_client_def)

lemma admin_user_read: "rd_admin_user d_read = ''admin''" "rd_admin_user d_read_no_exempt = ''''"
  by (simp_all add: d_read_def d_read_no_exempt_def resource_def)

lemma recorded_exempt:
  "recorded_state (fst (snd (ReadUsers (fake_client directory_admin roster_admin answer) d_read
      [''Admin'', ''Editor'', ''Viewer''] world0))) = lists_of [] [] [''b'']"
  by (rule ext)
     (simp add: ReadUsers_ok[OF orgusers_fake] admin_user_read roleMap_admin_exempt
       range_entries_Cons range_entries_Nil lower_roles Set_list_def
       recorded_state_def lists_of_def d_read_def resource_def)

lemma recorded_no_exempt:
  "recorded_state (fst (snd (ReadUsers (fake_client directory_admin roster_admin answer) d_read_no_exempt
      [''Admin'', ''Editor'', ''Viewer''] world0))) = lists_of [''admin@localhost''] [] [''b'']"
  by (rule ext)
     (simp add: ReadUsers_ok[OF orgusers_fake] admin_user_read roleMap_admin_no_exempt
       range_entries_Cons range_entries_Nil lower_roles Set_list_def
       recorded_state_def lists_of_def d_read_def d_read_no_exempt_def resource_def)

lemma next_update_exempt:
  "next_update (fst (snd (ReadUsers (fake_client directory_admin roster_admin answer) d_read
      [''Admin'', ''Editor'', ''Viewer''] world0))) config =
   resource (lists_of [] [] [''b'']) config"
  by (simp add: next_update_def recorded_exempt)
     (simp add: ReadUsers_ok[OF orgusers_fake] Set_fold_fields d_read_def resource_def)

lemma next_update_no_exempt:
  "next_update (fst (snd (ReadUsers (fake_client directory_admin roster_admin answer) d_read_no_exempt
      [''Admin'', ''Editor'', ''Viewer''] world0))) config =
   (resource (lists_of [''admin@localhost''] [] [''b'']) config)\<lparr>rd_admin_user := ''''\<rparr>"
  by (simp add: next_update_def recorded_no_exempt)
     (simp add: ReadUsers_ok[OF orgusers_fake] Set_fold_fields d_read_no_exempt_def d_read_def resource_def)

lemma fill_admin: "userMap_fill directory_admin = [''admin@localhost'' \<mapsto> 1, ''b'' \<mapsto> 2]"
  by (simp add: userMap_fill_def directory_admin_def)

lemma diff_admin_desired:
  "pass_diff (resource (lists_of [] [] [''b'']) (lists_of [''admin@localhost''] [] [''b'']))
      [''admin@localhost'', ''b''] [''b''] =
     ([''admin@localhost'' \<mapsto> ''Admin''], Map.empty, [])"
  by (simp add: diff_simps)

lemma pass_exempt_eq: "pass_exempt = resource (lists_of [] [] [''b'']) (lists_of [] [] [''b''])"
  by (simp only: pass_exempt_def c_admin_def next_update_exempt)

lemma pass_no_exempt_eq:
  "pass_no_exempt =
     (resource (lists_of [''admin@localhost''] [] [''b'']) (lists_of [] [] [''b'']))\<lparr>rd_admin_user := ''''\<rparr>"
  by (simp only: pass_no_exempt_def c_admin_def next_update_no_exempt)

lemma collect_pass_exempt: "collectUsers pass_exempt = ([''b'' \<mapsto> ''Viewer''], [''b'' \<mapsto> ''Viewer''])"
  by (simp add: pass_exempt_eq collectUsers_eq assign_all_def resource_def lists_of_def)

lemma collect_pass_no_exempt:
  "collectUsers pass_no_exempt =
     ([''admin@localhost'' \<mapsto> ''Admin'', ''b'' \<mapsto> ''Viewer''], [''b'' \<mapsto> ''Viewer''])"
  by (simp add: pass_no_exempt_eq collectUsers_eq assign_all_def resource_def lists_of_def)


section \<open>The claims\<close>

subsection \<open>The differ\<close>

text \<open>
  C1. \<^verbatim>\<open>userDiff\<close> follows the algorithm of the specification. For every email of the
  desired state \<open>newUsers\<close>: when the observed state \<open>oldUsers\<close> does not have it, it is in
  \<open>add\<close> with the desired role; when the observed state has it with another role, it is in
  \<open>update\<close> with the desired role; when the observed state has it with the same role, it is
  in none of the three outputs. Every email of the observed state that the desired state
  does not have is in \<open>remove\<close>. For an empty desired state \<open>remove\<close> holds all keys of the
  observed state and \<open>add\<close> and \<open>update\<close> are empty; for equal states the three outputs are
  empty. The orders \<open>kn\<close> and \<open>ko\<close> are those in which the two loops visit their maps.
\<close>

theorem userDiff_algorithm:
  assumes "range_order newUsers kn" and "range_order oldUsers ko"
  shows "(let (add, update, remove) = userDiff oldUsers newUsers kn ko in
           (\<forall>e role. newUsers e = Some role \<longrightarrow>
              (oldUsers e = None \<longrightarrow> add e = Some role \<and> update e = None \<and> e \<notin> set remove) \<and>
              (\<forall>oldRole. oldUsers e = Some oldRole \<and> oldRole \<noteq> role \<longrightarrow>
                 update e = Some role \<and> add e = None \<and> e \<notin> set remove) \<and>
              (oldUsers e = Some role \<longrightarrow> add e = None \<and> update e = None \<and> e \<notin> set remove)) \<and>
           (\<forall>e. oldUsers e \<noteq> None \<and> newUsers e = None \<longrightarrow> e \<in> set remove) \<and>
           (newUsers = Map.empty \<longrightarrow>
              add = Map.empty \<and> update = Map.empty \<and> remove = ko \<and> set remove = dom oldUsers) \<and>
           (oldUsers = newUsers \<longrightarrow> add = Map.empty \<and> update = Map.empty \<and> remove = []))"
proof -
  let ?D = "userDiff oldUsers newUsers kn ko"
  have kn: "set kn = dom newUsers" and ko: "set ko = dom oldUsers"
    using assms by (simp_all add: range_order_def)
  have add: "\<And>e. fst ?D e = (if oldUsers e = None then newUsers e else None)"
    using kn by (auto simp: userDiff_add)
  have upd: "\<And>e. fst (snd ?D) e =
      (if oldUsers e \<noteq> None \<and> oldUsers e \<noteq> newUsers e then newUsers e else None)"
    using kn by (auto simp: userDiff_update)
  have rem: "snd (snd ?D) = filter (\<lambda>u. newUsers u = None) ko"
    using ko by (auto simp: userDiff_remove intro: filter_cong)
  have 1: "\<forall>e role. newUsers e = Some role \<longrightarrow>
              (oldUsers e = None \<longrightarrow>
                 fst ?D e = Some role \<and> fst (snd ?D) e = None \<and> e \<notin> set (snd (snd ?D))) \<and>
              (\<forall>oldRole. oldUsers e = Some oldRole \<and> oldRole \<noteq> role \<longrightarrow>
                 fst (snd ?D) e = Some role \<and> fst ?D e = None \<and> e \<notin> set (snd (snd ?D))) \<and>
              (oldUsers e = Some role \<longrightarrow>
                 fst ?D e = None \<and> fst (snd ?D) e = None \<and> e \<notin> set (snd (snd ?D)))"
    by (simp add: add upd rem)
  have 2: "\<forall>e. oldUsers e \<noteq> None \<and> newUsers e = None \<longrightarrow> e \<in> set (snd (snd ?D))"
    using ko by (auto simp: rem)
  have 3: "newUsers = Map.empty \<longrightarrow>
      fst ?D = Map.empty \<and> fst (snd ?D) = Map.empty \<and> snd (snd ?D) = ko \<and>
      set (snd (snd ?D)) = dom oldUsers"
    using ko by (auto simp: add upd rem fun_eq_iff)
  have 4: "oldUsers = newUsers \<longrightarrow>
      fst ?D = Map.empty \<and> fst (snd ?D) = Map.empty \<and> snd (snd ?D) = []"
    using ko by (auto simp: add upd rem fun_eq_iff filter_empty_conv)
  show ?thesis
    unfolding Let_def split_beta using 1 2 3 4 by blast
qed

theorem userDiff_algorithm_witness:
  "range_order desired_A [''a'', ''c''] \<and> range_order observed_A [''b'', ''a''] \<and>
   range_order (Map.empty :: string \<rightharpoonup> string) [] \<and>
   fst (userDiff observed_A desired_A [''a'', ''c''] [''b'', ''a'']) ''c'' = Some ''Viewer'' \<and>
   fst (snd (userDiff observed_A desired_A [''a'', ''c''] [''b'', ''a''])) ''a'' = Some ''Admin'' \<and>
   ''b'' \<in> set (snd (snd (userDiff observed_A desired_A [''a'', ''c''] [''b'', ''a'']))) \<and>
   userDiff observed_A Map.empty [] [''b'', ''a''] = (Map.empty, Map.empty, [''b'', ''a'']) \<and>
   userDiff observed_A observed_A [''b'', ''a''] [''b'', ''a''] = (Map.empty, Map.empty, [])"
proof -
  note A = userDiff_algorithm[OF range_order_desired_A range_order_observed_A,
      unfolded Let_def split_beta]
  note E = userDiff_algorithm[OF range_order_empty range_order_observed_A,
      unfolded Let_def split_beta]
  note I = userDiff_algorithm[OF range_order_observed_A range_order_observed_A,
      unfolded Let_def split_beta]
  have c: "desired_A ''c'' = Some ''Viewer''" "observed_A ''c'' = None"
    and a: "desired_A ''a'' = Some ''Admin''" "observed_A ''a'' = Some ''Editor''"
    and b: "desired_A ''b'' = None" "observed_A ''b'' \<noteq> None"
    by (simp_all add: desired_A_def observed_A_def)
  have 1: "fst (userDiff observed_A desired_A [''a'', ''c''] [''b'', ''a'']) ''c'' = Some ''Viewer''"
    using A[THEN conjunct1, rule_format, OF c(1), THEN conjunct1, rule_format, OF c(2)] by simp
  have 2: "fst (snd (userDiff observed_A desired_A [''a'', ''c''] [''b'', ''a''])) ''a'' = Some ''Admin''"
    using A[THEN conjunct1, rule_format, OF a(1), THEN conjunct2, THEN conjunct1, rule_format,
        of "''Editor''"] a(2)
    by simp
  have 3: "''b'' \<in> set (snd (snd (userDiff observed_A desired_A [''a'', ''c''] [''b'', ''a''])))"
    using A[THEN conjunct2, THEN conjunct1, rule_format, of "''b''"] b by simp
  have 4: "userDiff observed_A Map.empty [] [''b'', ''a''] = (Map.empty, Map.empty, [''b'', ''a''])"
    using E[THEN conjunct2, THEN conjunct2, THEN conjunct1] by (simp add: prod_eq_iff)
  have 5: "userDiff observed_A observed_A [''b'', ''a''] [''b'', ''a''] = (Map.empty, Map.empty, [])"
    using I[THEN conjunct2, THEN conjunct2, THEN conjunct2] by (simp add: prod_eq_iff)
  show ?thesis
    using 1 2 3 4 5 range_order_desired_A range_order_observed_A range_order_empty by simp
qed

text \<open>
  C10. The three outputs of \<^verbatim>\<open>userDiff\<close> have pairwise disjoint key sets: the keys of
  \<open>add\<close> are desired and not observed, the keys of \<open>update\<close> are both desired and observed,
  the elements of \<open>remove\<close> are observed and not desired; no email is in two outputs, and
  \<open>remove\<close> has no email twice.
\<close>

theorem userDiff_disjoint:
  assumes "range_order newUsers kn" and "range_order oldUsers ko"
  shows "(let (add, update, remove) = userDiff oldUsers newUsers kn ko in
           dom add \<subseteq> dom newUsers - dom oldUsers \<and>
           dom update \<subseteq> dom newUsers \<inter> dom oldUsers \<and>
           set remove \<subseteq> dom oldUsers - dom newUsers \<and>
           dom add \<inter> dom update = {} \<and>
           dom add \<inter> set remove = {} \<and>
           dom update \<inter> set remove = {} \<and>
           distinct remove)"
proof -
  let ?D = "userDiff oldUsers newUsers kn ko"
  have ko: "distinct ko" using assms by (simp add: range_order_def)
  have a: "dom (fst ?D) \<subseteq> dom newUsers - dom oldUsers"
    by (auto simp: userDiff_add dom_def split: if_splits)
  have u: "dom (fst (snd ?D)) \<subseteq> dom newUsers \<inter> dom oldUsers"
    by (auto simp: userDiff_update dom_def split: if_splits)
  have r: "set (snd (snd ?D)) \<subseteq> dom oldUsers - dom newUsers"
    by (auto simp: userDiff_remove)
  have d: "distinct (snd (snd ?D))"
    using ko by (simp add: userDiff_remove)
  show ?thesis
    unfolding Let_def split_beta using a u r d by blast
qed

theorem userDiff_disjoint_witness:
  "range_order desired_A [''a'', ''c''] \<and> range_order observed_A [''b'', ''a''] \<and>
   (let (add, update, remove) = userDiff observed_A desired_A [''a'', ''c''] [''b'', ''a''] in
           dom add \<subseteq> dom desired_A - dom observed_A \<and>
           dom update \<subseteq> dom desired_A \<inter> dom observed_A \<and>
           set remove \<subseteq> dom observed_A - dom desired_A \<and>
           dom add \<inter> dom update = {} \<and>
           dom add \<inter> set remove = {} \<and>
           dom update \<inter> set remove = {} \<and>
           distinct remove)"
  using userDiff_disjoint[OF range_order_desired_A range_order_observed_A]
    range_order_desired_A range_order_observed_A by simp

subsection \<open>The desired state\<close>

text \<open>
  C6. \<^verbatim>\<open>collectUsers\<close> goes through the lists in the order admins, editors, viewers, each
  list writing its role over what an earlier list wrote, so an email in several lists gets
  the role of the last of them; an email in both \<^verbatim>\<open>admins\<close> and \<^verbatim>\<open>viewers\<close> maps to
  \<^verbatim>\<open>Viewer\<close>.
\<close>

theorem collectUsers_last_list_wins:
  "collectUsers d =
     (assign_all ''Viewer'' (rd_old d ''viewers'')
        (assign_all ''Editor'' (rd_old d ''editors'')
           (assign_all ''Admin'' (rd_old d ''admins'') Map.empty)),
      assign_all ''Viewer'' (rd_new d ''viewers'')
        (assign_all ''Editor'' (rd_new d ''editors'')
           (assign_all ''Admin'' (rd_new d ''admins'') Map.empty)))
   \<and> snd (collectUsers d) e =
       (if e \<in> set (rd_new d ''viewers'') then Some ''Viewer''
        else if e \<in> set (rd_new d ''editors'') then Some ''Editor''
        else if e \<in> set (rd_new d ''admins'') then Some ''Admin''
        else None)
   \<and> (e \<in> set (rd_new d ''admins'') \<and> e \<in> set (rd_new d ''viewers'') \<longrightarrow>
        snd (collectUsers d) e = Some ''Viewer'')"
  by (simp add: collectUsers_eq assign_all_apply)

theorem collectUsers_last_list_wins_witness:
  "''u'' \<in> set (rd_new d_twice ''admins'') \<and> ''u'' \<in> set (rd_new d_twice ''viewers'') \<and>
   snd (collectUsers d_twice) ''u'' = Some ''Viewer'' \<and>
   snd (collectUsers d_twice) ''v'' = Some ''Admin''"
proof -
  have a: "''u'' \<in> set (rd_new d_twice ''admins'')" and v: "''u'' \<in> set (rd_new d_twice ''viewers'')"
    by (simp_all add: d_twice_def resource_def lists_of_def)
  have "snd (collectUsers d_twice) ''u'' = Some ''Viewer''"
    using collectUsers_last_list_wins[of d_twice "''u''"] a v by blast
  moreover have "snd (collectUsers d_twice) ''v'' = Some ''Admin''"
    using collectUsers_last_list_wins[of d_twice "''v''", THEN conjunct2, THEN conjunct1]
    by (simp add: d_twice_def resource_def lists_of_def)
  ultimately show ?thesis using a v by simp
qed

subsection \<open>Failures during a pass\<close>

text \<open>
  C8. When the query for the user list fails, \<^verbatim>\<open>UpdateUsers\<close> returns the error of that
  query; the query is the only call of the pass, so no \<^verbatim>\<open>AddOrgUser\<close>, \<^verbatim>\<open>UpdateOrgUser\<close> or
  \<^verbatim>\<open>RemoveOrgUser\<close> is attempted, and the remote state is the one the pass started in.
\<close>

theorem UpdateUsers_index_failure_aborts:
  assumes "Users c (remote w) = Inl e"
  shows "fst (UpdateUsers c d kn ko ka ku w) = Some e \<and>
         calls (snd (UpdateUsers c d kn ko ka ku w)) = calls w @ [(CallUsers, Some e)] \<and>
         remote (snd (UpdateUsers c d kn ko ka ku w)) = remote w \<and>
         logs (snd (UpdateUsers c d kn ko ka ku w)) = logs w"
  by (simp add: UpdateUsers_unfold userMap_fail[OF assms])

theorem UpdateUsers_index_failure_aborts_witness:
  "Users down_client (remote world0) = Inl ''503 Service Unavailable'' \<and>
   fst (UpdateUsers down_client d_A [''a'', ''c''] [''b'', ''a''] [''c''] [''a''] world0) =
     Some ''503 Service Unavailable'' \<and>
   calls (snd (UpdateUsers down_client d_A [''a'', ''c''] [''b'', ''a''] [''c''] [''a''] world0)) =
     [(CallUsers, Some ''503 Service Unavailable'')] \<and>
   remote (snd (UpdateUsers down_client d_A [''a'', ''c''] [''b'', ''a''] [''c''] [''a''] world0)) = [] \<and>
   logs (snd (UpdateUsers down_client d_A [''a'', ''c''] [''b'', ''a''] [''c''] [''a''] world0)) = []"
proof -
  have down: "Users down_client (remote world0) = Inl ''503 Service Unavailable''"
    by (simp add: down_client_def)
  show ?thesis
    using UpdateUsers_index_failure_aborts[OF down, of d_A "[''a'', ''c'']" "[''b'', ''a'']" "[''c'']" "[''a'']"]
      down
    by (simp add: world0_def)
qed

text \<open>
  C3 (the code does not do this). Every failure of an add, update or remove call should
  reach the caller. \<^verbatim>\<open>UpdateUsers\<close> calls \<^verbatim>\<open>addUsers\<close>, \<^verbatim>\<open>updateUsers\<close> and
  \<^verbatim>\<open>removeUsers\<close>, drops what they return and returns \<^verbatim>\<open>nil\<close>. Below, the service
  refuses the one \<^verbatim>\<open>AddOrgUser\<close> call of the pass: \<^verbatim>\<open>UpdateUsers\<close> returns \<^verbatim>\<open>nil\<close>, while
  \<^verbatim>\<open>CreateUsers\<close>, which returns what \<^verbatim>\<open>addUsers\<close> returns, hands the error on for the same
  input.
\<close>

theorem UpdateUsers_drops_mutation_errors:
  "UpdateUsers (fake_client directory_ab [] (fails_on (CallAddOrgUser 1 ''a'' ''Admin'')))
      d_add_a [''a''] [] [''a''] [] world0 =
     (None,
      \<lparr>remote = [CallAddOrgUser 1 ''a'' ''Admin''],
       calls = [(CallUsers, None), (CallAddOrgUser 1 ''a'' ''Admin'', Some ''500 Internal Server Error'')],
       logs = []\<rparr>)
   \<and> CreateUsers (fake_client directory_ab [] (fails_on (CallAddOrgUser 1 ''a'' ''Admin'')))
      d_add_a [''a''] world0 =
     (Some ''500 Internal Server Error'',
      \<lparr>remote = [CallAddOrgUser 1 ''a'' ''Admin''],
       calls = [(CallUsers, None), (CallAddOrgUser 1 ''a'' ''Admin'', Some ''500 Internal Server Error'')],
       logs = []\<rparr>)"
proof
  show "UpdateUsers (fake_client directory_ab [] (fails_on (CallAddOrgUser 1 ''a'' ''Admin'')))
      d_add_a [''a''] [] [''a''] [] world0 =
     (None,
      \<lparr>remote = [CallAddOrgUser 1 ''a'' ''Admin''],
       calls = [(CallUsers, None), (CallAddOrgUser 1 ''a'' ''Admin'', Some ''500 Internal Server Error'')],
       logs = []\<rparr>)"
    by (simp add: run_simps fill_ab diff_add_a rd_Id_add_a fails_on_def)
  have new: "snd (collectUsers d_add_a) = [''a'' \<mapsto> ''Admin'']"
    by (simp add: d_add_a_def collectUsers_eq assign_all_def resource_def lists_of_def)
  show "CreateUsers (fake_client directory_ab [] (fails_on (CallAddOrgUser 1 ''a'' ''Admin'')))
      d_add_a [''a''] world0 =
     (Some ''500 Internal Server Error'',
      \<lparr>remote = [CallAddOrgUser 1 ''a'' ''Admin''],
       calls = [(CallUsers, None), (CallAddOrgUser 1 ''a'' ''Admin'', Some ''500 Internal Server Error'')],
       logs = []\<rparr>)"
    by (simp add: CreateUsers_unfold new run_simps fill_ab rd_Id_add_a fails_on_def)
qed

text \<open>
  C4, as stated: no failure of a call keeps a later operation from being attempted. It does
  not hold inside a phase. Below, \<^verbatim>\<open>a\<close> and \<^verbatim>\<open>b\<close> are to be added and both are in the
  index; the call for \<^verbatim>\<open>a\<close> fails, \<^verbatim>\<open>addUsers\<close> returns, and no call for \<^verbatim>\<open>b\<close> is made.
  The remove phase still runs.
\<close>

theorem later_resolvable_entry_not_attempted:
  "toAdd (pass_diff d_add_ab_remove_c [''a'', ''b''] [''c'']) ''b'' = Some ''Admin'' \<and>
   userMap_fill directory_abc ''b'' = Some 2 \<and>
   calls (snd (UpdateUsers (fake_client directory_abc [] (fails_on (CallAddOrgUser 1 ''a'' ''Admin'')))
      d_add_ab_remove_c [''a'', ''b''] [''c''] [''a'', ''b''] [] world0)) =
     [(CallUsers, None), (CallAddOrgUser 1 ''a'' ''Admin'', Some ''500 Internal Server Error''),
      (CallRemoveOrgUser 1 3, None)]"
  by (simp add: run_simps fill_abc diff_add_ab_remove_c rd_Id_add_ab_remove_c fails_on_def)

text \<open>
  C4, amended. A failed call ends the phase it is in and no other: the calls of a pass are
  the query for the user list, then those of the add phase, of the update phase and of the
  remove phase. In each phase the calls are an initial part of the calls for the entries of
  the diff whose email is in the index; only the last call of a phase can have failed, and a
  phase none of whose calls failed has made them all. So every phase starts, whatever
  failed before it, and stops at its own first failure.
\<close>

theorem UpdateUsers_failure_ends_its_phase:
  assumes "Users c (remote w) = Inr users"
    and "range_order (toAdd (pass_diff d kn ko)) ka"
    and "range_order (toUpdate (pass_diff d kn ko)) ku"
  shows "\<exists>A U R r1 r2 r3 all_add all_update all_remove.
     calls (snd (UpdateUsers c d kn ko ka ku w)) = calls w @ [(CallUsers, None)] @ A @ U @ R \<and>
     phase_trace all_add A r1 \<and> phase_trace all_update U r2 \<and> phase_trace all_remove R r3 \<and>
     set all_add =
       {CallAddOrgUser (ParseInt (rd_Id d)) e r | e r.
          toAdd (pass_diff d kn ko) e = Some r \<and> userMap_fill users e \<noteq> None} \<and>
     set all_update =
       {CallUpdateOrgUser (ParseInt (rd_Id d)) i r | e i r.
          toUpdate (pass_diff d kn ko) e = Some r \<and> userMap_fill users e = Some i} \<and>
     set all_remove =
       {CallRemoveOrgUser (ParseInt (rd_Id d)) i | e i.
          e \<in> set (toRemove (pass_diff d kn ko)) \<and> userMap_fill users e = Some i}"
proof -
  let ?org = "ParseInt (rd_Id d)" and ?um = "userMap_fill users" and ?D = "pass_diff d kn ko"
  from UpdateUsers_calls[OF assms(1)] obtain A U R r1 r2 r3 where
    t: "calls (snd (UpdateUsers c d kn ko ka ku w)) = calls w @ [(CallUsers, None)] @ A @ U @ R"
      "phase_trace (add_calls ?org ?um (range_entries (toAdd ?D) ka)) A r1"
      "phase_trace (update_calls ?org ?um (range_entries (toUpdate ?D) ku)) U r2"
      "phase_trace (remove_calls ?org ?um (toRemove ?D)) R r3"
    by blast
  have a: "set (add_calls ?org ?um (range_entries (toAdd ?D) ka)) =
      {CallAddOrgUser ?org e r | e r. toAdd ?D e = Some r \<and> ?um e \<noteq> None}"
    by (simp add: set_add_calls mem_range_entries_order[OF assms(2)])
  have u: "set (update_calls ?org ?um (range_entries (toUpdate ?D) ku)) =
      {CallUpdateOrgUser ?org i r | e i r. toUpdate ?D e = Some r \<and> ?um e = Some i}"
    by (simp add: set_update_calls mem_range_entries_order[OF assms(3)])
  have r: "set (remove_calls ?org ?um (toRemove ?D)) =
      {CallRemoveOrgUser ?org i | e i. e \<in> set (toRemove ?D) \<and> ?um e = Some i}"
    by (simp add: set_remove_calls)
  show ?thesis
    using t a u r by blast
qed

theorem UpdateUsers_failure_ends_its_phase_witness:
  "Users (fake_client directory_abc [] (fails_on (CallAddOrgUser 1 ''a'' ''Admin''))) (remote world0) =
     Inr directory_abc \<and>
   range_order (toAdd (pass_diff d_add_ab_remove_c [''a'', ''b''] [''c''])) [''a'', ''b''] \<and>
   range_order (toUpdate (pass_diff d_add_ab_remove_c [''a'', ''b''] [''c''])) [] \<and>
   (\<exists>A U R r1 r2 r3 all_add all_update all_remove.
     calls (snd (UpdateUsers (fake_client directory_abc [] (fails_on (CallAddOrgUser 1 ''a'' ''Admin'')))
        d_add_ab_remove_c [''a'', ''b''] [''c''] [''a'', ''b''] [] world0)) =
       calls world0 @ [(CallUsers, None)] @ A @ U @ R \<and>
     phase_trace all_add A r1 \<and> phase_trace all_update U r2 \<and> phase_trace all_remove R r3 \<and>
     set all_add =
       {CallAddOrgUser (ParseInt (rd_Id d_add_ab_remove_c)) e r | e r.
          toAdd (pass_diff d_add_ab_remove_c [''a'', ''b''] [''c'']) e = Some r \<and>
          userMap_fill directory_abc e \<noteq> None} \<and>
     set all_update =
       {CallUpdateOrgUser (ParseInt (rd_Id d_add_ab_remove_c)) i r | e i r.
          toUpdate (pass_diff d_add_ab_remove_c [''a'', ''b''] [''c'']) e = Some r \<and>
          userMap_fill directory_abc e = Some i} \<and>
     set all_remove =
       {CallRemoveOrgUser (ParseInt (rd_Id d_add_ab_remove_c)) i | e i.
          e \<in> set (toRemove (pass_diff d_add_ab_remove_c [''a'', ''b''] [''c''])) \<and>
          userMap_fill directory_abc e = Some i})"
proof -
  have a: "range_order (toAdd (pass_diff d_add_ab_remove_c [''a'', ''b''] [''c''])) [''a'', ''b'']"
    by (auto simp: diff_add_ab_remove_c toAdd_def range_order_def)
  have u: "range_order (toUpdate (pass_diff d_add_ab_remove_c [''a'', ''b''] [''c''])) []"
    by (simp add: diff_add_ab_remove_c toUpdate_def range_order_def)
  show ?thesis
    by (intro conjI users_fake a u UpdateUsers_failure_ends_its_phase[OF users_fake a u])
qed

text \<open>
  C7, as stated: an entry whose email is not in the index is skipped with a warning, and
  every other entry of the phase whose email is in the index is still attempted. The second
  part does not hold when a call of the phase fails. Below, \<^verbatim>\<open>x\<close> is not in the index and is
  skipped with a warning; the call for \<^verbatim>\<open>a\<close> fails and \<^verbatim>\<open>updateUsers\<close> returns; \<^verbatim>\<open>b\<close> is in
  the index and no call is made for it.
\<close>

theorem resolvable_entry_after_failure_not_attempted:
  "index_ab ''x'' = None \<and> index_ab ''b'' = Some 2 \<and> users_xab ''b'' = Some ''Viewer'' \<and>
   updateUsers (fake_client [] [] (fails_on (CallUpdateOrgUser 1 1 ''Editor''))) 1 users_xab index_ab
      [''x'', ''a'', ''b''] world0 =
     (Some ''500 Internal Server Error'',
      \<lparr>remote = [CallUpdateOrgUser 1 1 ''Editor''],
       calls = [(CallUpdateOrgUser 1 1 ''Editor'', Some ''500 Internal Server Error'')],
       logs = [warn_skip ''updating'' ''x'']\<rparr>)"
proof -
  have "index_ab ''x'' = None" and "index_ab ''b'' = Some 2" and "users_xab ''b'' = Some ''Viewer''"
    by (simp_all add: index_ab_def users_xab_def)
  moreover have "updateUsers (fake_client [] [] (fails_on (CallUpdateOrgUser 1 1 ''Editor''))) 1
      users_xab index_ab [''x'', ''a'', ''b''] world0 =
     (Some ''500 Internal Server Error'',
      \<lparr>remote = [CallUpdateOrgUser 1 1 ''Editor''],
       calls = [(CallUpdateOrgUser 1 1 ''Editor'', Some ''500 Internal Server Error'')],
       logs = [warn_skip ''updating'' ''x'']\<rparr>)"
    by (simp add: updateUsers_def entries_xab index_ab_def do_UpdateOrgUser_fake
        log_Printf_def world0_def fails_on_def)
  ultimately show ?thesis by simp
qed

text \<open>
  C7, amended. An entry whose email is not in the index gives no remote call: the calls of
  a phase are among those for the entries whose email is in the index. When the phase
  reaches such an entry it writes a warning and goes on with the next entry. The phase
  makes the calls for the entries in the index in order, up to the first call that fails,
  where it returns; the warnings are those for the entries not in the index that it reached.
  A phase none of whose calls fails makes the call for every entry in the index and writes
  the warning for every other entry.
\<close>

theorem unknown_users_are_skipped:
  "phase_effect w (snd (addUsers c orgId users um ks w))
     (add_calls orgId um (range_entries users ks))
     (skip_warnings ''adding'' um (map fst (range_entries users ks)))
     (fst (addUsers c orgId users um ks w)) \<and>
   phase_effect w (snd (updateUsers c orgId users um ks w))
     (update_calls orgId um (range_entries users ks))
     (skip_warnings ''updating'' um (map fst (range_entries users ks)))
     (fst (updateUsers c orgId users um ks w)) \<and>
   phase_effect w (snd (removeUsers c orgId us um w))
     (remove_calls orgId um us)
     (skip_warnings ''deleting'' um us)
     (fst (removeUsers c orgId us um w)) \<and>
   set (add_calls orgId um (range_entries users ks)) =
     {CallAddOrgUser orgId e r | e r. e \<in> set ks \<and> users e = Some r \<and> um e \<noteq> None} \<and>
   set (update_calls orgId um (range_entries users ks)) =
     {CallUpdateOrgUser orgId i r | e i r. e \<in> set ks \<and> users e = Some r \<and> um e = Some i} \<and>
   set (remove_calls orgId um us) =
     {CallRemoveOrgUser orgId i | e i. e \<in> set us \<and> um e = Some i}"
proof (intro conjI)
  show "phase_effect w (snd (addUsers c orgId users um ks w))
     (add_calls orgId um (range_entries users ks))
     (skip_warnings ''adding'' um (map fst (range_entries users ks)))
     (fst (addUsers c orgId users um ks w))"
    unfolding addUsers_def by (rule addUsers_loop_effect)
  show "phase_effect w (snd (updateUsers c orgId users um ks w))
     (update_calls orgId um (range_entries users ks))
     (skip_warnings ''updating'' um (map fst (range_entries users ks)))
     (fst (updateUsers c orgId users um ks w))"
    unfolding updateUsers_def by (rule updateUsers_loop_effect)
  show "phase_effect w (snd (removeUsers c orgId us um w))
     (remove_calls orgId um us)
     (skip_warnings ''deleting'' um us)
     (fst (removeUsers c orgId us um w))"
    by (rule removeUsers_effect)
  show "set (add_calls orgId um (range_entries users ks)) =
     {CallAddOrgUser orgId e r | e r. e \<in> set ks \<and> users e = Some r \<and> um e \<noteq> None}"
    by (simp add: set_add_calls set_range_entries)
  show "set (update_calls orgId um (range_entries users ks)) =
     {CallUpdateOrgUser orgId i r | e i r. e \<in> set ks \<and> users e = Some r \<and> um e = Some i}"
    by (simp add: set_update_calls set_range_entries)
  show "set (remove_calls orgId um us) =
     {CallRemoveOrgUser orgId i | e i. e \<in> set us \<and> um e = Some i}"
    by (rule set_remove_calls)
qed

theorem unknown_users_are_skipped_witness:
  "phase_effect world0
     (snd (updateUsers (fake_client [] [] (\<lambda>c. None)) 1 users_xab index_ab [''x'', ''a'', ''b''] world0))
     (update_calls 1 index_ab (range_entries users_xab [''x'', ''a'', ''b'']))
     (skip_warnings ''updating'' index_ab (map fst (range_entries users_xab [''x'', ''a'', ''b''])))
     (fst (updateUsers (fake_client [] [] (\<lambda>c. None)) 1 users_xab index_ab [''x'', ''a'', ''b''] world0)) \<and>
   updateUsers (fake_client [] [] (\<lambda>c. None)) 1 users_xab index_ab [''x'', ''a'', ''b''] world0 =
     (None,
      \<lparr>remote = [CallUpdateOrgUser 1 1 ''Editor'', CallUpdateOrgUser 1 2 ''Viewer''],
       calls = [(CallUpdateOrgUser 1 1 ''Editor'', None), (CallUpdateOrgUser 1 2 ''Viewer'', None)],
       logs = [warn_skip ''updating'' ''x'']\<rparr>) \<and>
   update_calls 1 index_ab (range_entries users_xab [''x'', ''a'', ''b'']) =
     [CallUpdateOrgUser 1 1 ''Editor'', CallUpdateOrgUser 1 2 ''Viewer''] \<and>
   skip_warnings ''updating'' index_ab (map fst (range_entries users_xab [''x'', ''a'', ''b''])) =
     [warn_skip ''updating'' ''x'']"
proof -
  have run: "updateUsers (fake_client [] [] (\<lambda>c. None)) 1 users_xab index_ab [''x'', ''a'', ''b''] world0 =
     (None,
      \<lparr>remote = [CallUpdateOrgUser 1 1 ''Editor'', CallUpdateOrgUser 1 2 ''Viewer''],
       calls = [(CallUpdateOrgUser 1 1 ''Editor'', None), (CallUpdateOrgUser 1 2 ''Viewer'', None)],
       logs = [warn_skip ''updating'' ''x'']\<rparr>)"
    by (simp add: updateUsers_def entries_xab index_ab_def do_UpdateOrgUser_fake
        log_Printf_def world0_def)
  have all: "update_calls 1 index_ab (range_entries users_xab [''x'', ''a'', ''b'']) =
     [CallUpdateOrgUser 1 1 ''Editor'', CallUpdateOrgUser 1 2 ''Viewer'']"
    by (simp add: entries_xab index_ab_def)
  have warns: "skip_warnings ''updating'' index_ab (map fst (range_entries users_xab [''x'', ''a'', ''b''])) =
     [warn_skip ''updating'' ''x'']"
    by (simp add: entries_xab index_ab_def skip_warnings_def)
  show ?thesis
    by (intro conjI run all warns
        unknown_users_are_skipped[where w=world0 and c="fake_client [] [] (\<lambda>c. None)" and orgId=1
          and users=users_xab and um=index_ab and ks="[''x'', ''a'', ''b'']", THEN conjunct2, THEN conjunct1])
qed

subsection \<open>Order of the phases\<close>




subsection \<open>Where the observed state comes from\<close>

text \<open>
  C2, as stated: the observed side of the diff of a pass equals the mapping built from a
  roster query made in that pass. \<^verbatim>\<open>UpdateUsers\<close> makes no such query. Below, the roster of
  the service is empty while the recorded state has \<^verbatim>\<open>a\<close> as an editor: the observed side
  has \<^verbatim>\<open>a\<close>, the mapping built from the roster does not, and the only call of the pass is
  the query for the user list.
\<close>

theorem observed_differs_from_fresh_roster:
  "OrgUsers (fake_client directory_ab [] (\<lambda>c. None)) (ParseInt (rd_Id d_stale)) (remote world0) = Inr [] \<and>
   spec_fromRoster [] (rd_admin_user d_stale) ''a'' = None \<and>
   fst (collectUsers d_stale) ''a'' = Some ''Editor'' \<and>
   calls (snd (UpdateUsers (fake_client directory_ab [] (\<lambda>c. None)) d_stale [''a''] [''a''] [] [] world0)) =
     [(CallUsers, None)]"
proof -
  have "OrgUsers (fake_client directory_ab [] (\<lambda>c. None)) (ParseInt (rd_Id d_stale)) (remote world0) = Inr []"
    by (simp add: fake_client_def)
  moreover have "spec_fromRoster [] (rd_admin_user d_stale) ''a'' = None"
    by (simp add: spec_fromRoster_def)
  moreover have "fst (collectUsers d_stale) ''a'' = Some ''Editor''"
    by (simp add: d_stale_def collectUsers_eq assign_all_def resource_def lists_of_def)
  moreover have "calls (snd (UpdateUsers (fake_client directory_ab [] (\<lambda>c. None)) d_stale
      [''a''] [''a''] [] [] world0)) = [(CallUsers, None)]"
    by (simp add: run_simps fill_ab diff_stale rd_Id_stale)
  ultimately show ?thesis by simp
qed

text \<open>
  C2, amended. The observed side of the diff is what \<^verbatim>\<open>collectUsers\<close> builds from the old
  values of the three list attributes in the resource data, the state recorded before the
  pass. \<^verbatim>\<open>UpdateUsers\<close> does not query the roster: it makes no \<^verbatim>\<open>OrgUsers\<close> call, and its
  result and effects are the same whatever that query would answer.
\<close>

theorem UpdateUsers_observed_from_recorded_state:
  "UpdateUsers (c\<lparr>OrgUsers := f\<rparr>) d kn ko ka ku w = UpdateUsers c d kn ko ka ku w \<and>
   filter (\<lambda>p. is_roster_query (fst p)) (calls (snd (UpdateUsers c d kn ko ka ku w))) =
     filter (\<lambda>p. is_roster_query (fst p)) (calls w) \<and>
   pass_diff d kn ko = userDiff (fst (collectUsers d)) (snd (collectUsers d)) kn ko \<and>
   fst (collectUsers d) e =
     (if e \<in> set (rd_old d ''viewers'') then Some ''Viewer''
      else if e \<in> set (rd_old d ''editors'') then Some ''Editor''
      else if e \<in> set (rd_old d ''admins'') then Some ''Admin''
      else None)"
proof (intro conjI)
  show "UpdateUsers (c\<lparr>OrgUsers := f\<rparr>) d kn ko ka ku w = UpdateUsers c d kn ko ka ku w"
    by (rule UpdateUsers_OrgUsers)
  show "filter (\<lambda>p. is_roster_query (fst p)) (calls (snd (UpdateUsers c d kn ko ka ku w))) =
     filter (\<lambda>p. is_roster_query (fst p)) (calls w)"
    by (rule UpdateUsers_no_roster_query)
  show "pass_diff d kn ko = userDiff (fst (collectUsers d)) (snd (collectUsers d)) kn ko"
    by (rule pass_diff_userDiff)
  show "fst (collectUsers d) e =
     (if e \<in> set (rd_old d ''viewers'') then Some ''Viewer''
      else if e \<in> set (rd_old d ''editors'') then Some ''Editor''
      else if e \<in> set (rd_old d ''admins'') then Some ''Admin''
      else None)"
    by (simp add: collectUsers_eq assign_all_apply)
qed

subsection \<open>The exempt admin login\<close>

text \<open>
  C5, as stated: with the exempt login \<^verbatim>\<open>admin\<close>, a user of the roster with that login is in
  none of \<open>add\<close>, \<open>update\<close> and \<open>remove\<close>, so no mutation targets it. \<^verbatim>\<open>ReadUsers\<close> leaves the
  user out of what it records, but nothing leaves it out of the desired state. Below, the
  roster has the login \<^verbatim>\<open>admin\<close> with the email \<^verbatim>\<open>admin@localhost\<close>, the exempt login is
  \<^verbatim>\<open>admin\<close>, and the configuration lists that email as an admin: after the read, the update
  has the email in \<open>add\<close> and calls \<^verbatim>\<open>AddOrgUser\<close> for it.
\<close>

theorem exempt_admin_is_added_when_desired:
  "OrgUsers (fake_client directory_admin roster_admin (\<lambda>c. None)) (ParseInt (rd_Id d_read)) (remote world0) =
     Inr roster_admin \<and>
   rd_admin_user d_read = ''admin'' \<and>
   toAdd (pass_diff
      (next_update (fst (snd (ReadUsers (fake_client directory_admin roster_admin (\<lambda>c. None)) d_read
          [''Admin'', ''Editor'', ''Viewer''] world0))) (lists_of [''admin@localhost''] [] [''b'']))
      [''admin@localhost'', ''b''] [''b'']) ''admin@localhost'' = Some ''Admin'' \<and>
   calls (snd (UpdateUsers (fake_client directory_admin roster_admin (\<lambda>c. None))
      (next_update (fst (snd (ReadUsers (fake_client directory_admin roster_admin (\<lambda>c. None)) d_read
          [''Admin'', ''Editor'', ''Viewer''] world0))) (lists_of [''admin@localhost''] [] [''b'']))
      [''admin@localhost'', ''b''] [''b''] [''admin@localhost''] [] world0)) =
     [(CallUsers, None), (CallAddOrgUser 1 ''admin@localhost'' ''Admin'', None)]"
proof -
  have "toAdd (pass_diff
      (next_update (fst (snd (ReadUsers (fake_client directory_admin roster_admin (\<lambda>c. None)) d_read
          [''Admin'', ''Editor'', ''Viewer''] world0))) (lists_of [''admin@localhost''] [] [''b'']))
      [''admin@localhost'', ''b''] [''b'']) ''admin@localhost'' = Some ''Admin''"
    by (simp add: next_update_exempt diff_admin_desired toAdd_def)
  moreover have "calls (snd (UpdateUsers (fake_client directory_admin roster_admin (\<lambda>c. None))
      (next_update (fst (snd (ReadUsers (fake_client directory_admin roster_admin (\<lambda>c. None)) d_read
          [''Admin'', ''Editor'', ''Viewer''] world0))) (lists_of [''admin@localhost''] [] [''b'']))
      [''admin@localhost'', ''b''] [''b''] [''admin@localhost''] [] world0)) =
     [(CallUsers, None), (CallAddOrgUser 1 ''admin@localhost'' ''Admin'', None)]"
    by (simp only: next_update_exempt)
       (simp add: run_simps fill_admin diff_admin_desired rd_Id_resource)
  ultimately show ?thesis
    by (simp add: orgusers_fake admin_user_read)
qed

text \<open>
  C5, amended. Take a read of a roster that has a user \<open>x\<close> with the login \<^verbatim>\<open>admin\<close>, and
  the update that follows it. With the exempt login \<^verbatim>\<open>admin\<close>, and no entry of the roster
  under another login sharing the email of \<open>x\<close>: the email is not in the observed state, not
  in \<open>update\<close> and not in \<open>remove\<close>; it is in \<open>add\<close> exactly when the desired state has it,
  with the desired role. With the exempt login empty, and every role of the roster one of
  \<^verbatim>\<open>Admin\<close>, \<^verbatim>\<open>Editor\<close>, \<^verbatim>\<open>Viewer\<close>: the email is in the observed state like that of any
  other member, and it is in \<open>remove\<close> when the desired state does not have it.
\<close>

theorem exempt_admin_login:
  assumes roster: "OrgUsers c (ParseInt (rd_Id d)) (remote w) = Inr roster"
    and ks: "range_order (ReadUsers_roleMap (rd_admin_user d) roster) ks"
    and d2: "d2 = next_update (fst (snd (ReadUsers c d ks w))) config"
    and kn: "range_order (snd (collectUsers d2)) kn"
    and ko: "range_order (fst (collectUsers d2)) ko"
    and x: "x \<in> set roster" and login: "OrgUser_Login x = ''admin''"
  shows "(rd_admin_user d = ''admin'' \<and>
          (\<forall>y \<in> set roster. OrgUser_Email y = OrgUser_Email x \<longrightarrow> OrgUser_Login y = ''admin'') \<longrightarrow>
            fst (collectUsers d2) (OrgUser_Email x) = None \<and>
            toUpdate (pass_diff d2 kn ko) (OrgUser_Email x) = None \<and>
            OrgUser_Email x \<notin> set (toRemove (pass_diff d2 kn ko)) \<and>
            toAdd (pass_diff d2 kn ko) (OrgUser_Email x) = snd (collectUsers d2) (OrgUser_Email x)) \<and>
         (rd_admin_user d = '''' \<and>
          (\<forall>y \<in> set roster. OrgUser_Role y \<in> {''Admin'', ''Editor'', ''Viewer''}) \<longrightarrow>
            fst (collectUsers d2) (OrgUser_Email x) \<noteq> None \<and>
            (snd (collectUsers d2) (OrgUser_Email x) = None \<longrightarrow>
               OrgUser_Email x \<in> set (toRemove (pass_diff d2 kn ko))))"
proof (intro conjI impI)
  let ?e = "OrgUser_Email x" and ?g = "rd_admin_user d"
  let ?d' = "fst (snd (ReadUsers c d ks w))"
  let ?old = "fst (collectUsers d2)" and ?new = "snd (collectUsers d2)"
  have skn: "set kn = dom ?new" and sko: "set ko = dom ?old"
    using kn ko by (simp_all add: range_order_def)
  {
    assume a: "rd_admin_user d = ''admin'' \<and>
      (\<forall>y \<in> set roster. OrgUser_Email y = OrgUser_Email x \<longrightarrow> OrgUser_Login y = ''admin'')"
    have none: "?old ?e = None"
    proof (rule ccontr)
      assume "?old ?e \<noteq> None"
      then obtain r where r: "r \<in> {''Admin'', ''Editor'', ''Viewer''}"
        and er: "?e \<in> set (recorded_state ?d' (ToLower r @ ''s''))"
        unfolding d2 observed_next_update_iff by blast
      from ReadUsers_recorded[OF roster ks r] er obtain k v where
        kv: "ReadUsers_roleMap ?g roster k = Some v" "?e \<in> set v"
        by blast
      from roleMap_emails[OF kv] obtain y where
        "y \<in> set roster" "OrgUser_Email y = ?e" "OrgUser_Login y \<noteq> ?g"
        by blast
      then show False using a by auto
    qed
    show "?old ?e = None" by (rule none)
    show "toUpdate (pass_diff d2 kn ko) ?e = None"
      using none by (simp add: toUpdate_def pass_diff_userDiff userDiff_update)
    show "?e \<notin> set (toRemove (pass_diff d2 kn ko))"
      using none by (simp add: toRemove_def pass_diff_userDiff userDiff_remove)
    show "toAdd (pass_diff d2 kn ko) ?e = ?new ?e"
      using none skn by (auto simp: toAdd_def pass_diff_userDiff userDiff_add)
  }
  {
    assume b: "rd_admin_user d = '''' \<and>
      (\<forall>y \<in> set roster. OrgUser_Role y \<in> {''Admin'', ''Editor'', ''Viewer''})"
    let ?r = "OrgUser_Role x"
    have r: "?r \<in> {''Admin'', ''Editor'', ''Viewer''}"
      using b x by blast
    have "OrgUser_Login x \<noteq> ?g"
      using b login by simp
    from roleMap_mem[OF x this] obtain v where
      v: "ReadUsers_roleMap ?g roster ?r = Some v" "?e \<in> set v"
      by blast
    from ReadUsers_recorded[OF roster ks r] obtain k v' where
      kv: "ReadUsers_roleMap ?g roster k = Some v'" "ToLower k @ ''s'' = ToLower ?r @ ''s''"
        "recorded_state ?d' (ToLower ?r @ ''s'') = v'"
      by blast
    have "k \<in> {''Admin'', ''Editor'', ''Viewer''}"
      using roleMap_dom[of ?g roster k] kv(1) b by simp
    then have "k = ?r"
      using key_of_role_inj[OF _ r kv(2)] by blast
    then have "?e \<in> set (recorded_state ?d' (ToLower ?r @ ''s''))"
      using v kv by simp
    then have some: "?old ?e \<noteq> None"
      unfolding d2 observed_next_update_iff using r by blast
    show "?old ?e \<noteq> None" by (rule some)
    {
      assume "?new ?e = None"
      moreover have "?e \<in> set ko" using some sko by auto
      ultimately show "?e \<in> set (toRemove (pass_diff d2 kn ko))"
        using some by (simp add: toRemove_def pass_diff_userDiff userDiff_remove)
    }
  }
qed

theorem exempt_admin_login_witness:
  "OrgUsers c_admin (ParseInt (rd_Id d_read)) (remote world0) = Inr roster_admin \<and>
   range_order (ReadUsers_roleMap (rd_admin_user d_read) roster_admin) [''Admin'', ''Editor'', ''Viewer''] \<and>
   range_order (snd (collectUsers pass_exempt)) [''b''] \<and>
   range_order (fst (collectUsers pass_exempt)) [''b''] \<and>
   admin_entry \<in> set roster_admin \<and> OrgUser_Login admin_entry = ''admin'' \<and>
   rd_admin_user d_read = ''admin'' \<and>
   fst (collectUsers pass_exempt) ''admin@localhost'' = None \<and>
   toUpdate (pass_diff pass_exempt [''b''] [''b'']) ''admin@localhost'' = None \<and>
   ''admin@localhost'' \<notin> set (toRemove (pass_diff pass_exempt [''b''] [''b''])) \<and>
   toAdd (pass_diff pass_exempt [''b''] [''b'']) ''admin@localhost'' = None \<and>
   OrgUsers c_admin (ParseInt (rd_Id d_read_no_exempt)) (remote world0) = Inr roster_admin \<and>
   range_order (ReadUsers_roleMap (rd_admin_user d_read_no_exempt) roster_admin)
     [''Admin'', ''Editor'', ''Viewer''] \<and>
   range_order (snd (collectUsers pass_no_exempt)) [''b''] \<and>
   range_order (fst (collectUsers pass_no_exempt)) [''admin@localhost'', ''b''] \<and>
   rd_admin_user d_read_no_exempt = '''' \<and>
   fst (collectUsers pass_no_exempt) ''admin@localhost'' \<noteq> None \<and>
   ''admin@localhost'' \<in> set (toRemove (pass_diff pass_no_exempt [''b''] [''admin@localhost'', ''b'']))"
proof -
  have q1: "OrgUsers c_admin (ParseInt (rd_Id d_read)) (remote world0) = Inr roster_admin"
    and q2: "OrgUsers c_admin (ParseInt (rd_Id d_read_no_exempt)) (remote world0) = Inr roster_admin"
    by (simp_all add: c_admin_def orgusers_fake)
  have ks1: "range_order (ReadUsers_roleMap (rd_admin_user d_read) roster_admin)
      [''Admin'', ''Editor'', ''Viewer'']"
    by (auto simp: admin_user_read roleMap_admin_exempt range_order_def)
  have ks2: "range_order (ReadUsers_roleMap (rd_admin_user d_read_no_exempt) roster_admin)
      [''Admin'', ''Editor'', ''Viewer'']"
    by (auto simp: admin_user_read roleMap_admin_no_exempt range_order_def)
  have kn1: "range_order (snd (collectUsers pass_exempt)) [''b'']"
    and ko1: "range_order (fst (collectUsers pass_exempt)) [''b'']"
    and kn2: "range_order (snd (collectUsers pass_no_exempt)) [''b'']"
    and ko2: "range_order (fst (collectUsers pass_no_exempt)) [''admin@localhost'', ''b'']"
    by (auto simp: collect_pass_exempt collect_pass_no_exempt range_order_def)
  have x: "admin_entry \<in> set roster_admin" and login: "OrgUser_Login admin_entry = ''admin''"
    and email: "OrgUser_Email admin_entry = ''admin@localhost''"
    by (simp_all add: admin_entry_def roster_admin_def)
  have only: "\<forall>y \<in> set roster_admin.
      OrgUser_Email y = OrgUser_Email admin_entry \<longrightarrow> OrgUser_Login y = ''admin''"
    by (simp add: admin_entry_def roster_admin_def)
  have roles: "\<forall>y \<in> set roster_admin. OrgUser_Role y \<in> {''Admin'', ''Editor'', ''Viewer''}"
    by (simp add: roster_admin_def)
  have desired1: "snd (collectUsers pass_exempt) ''admin@localhost'' = None"
    and desired2: "snd (collectUsers pass_no_exempt) ''admin@localhost'' = None"
    by (simp_all add: collect_pass_exempt collect_pass_no_exempt)
  note T1 = exempt_admin_login[OF q1 ks1 pass_exempt_def kn1 ko1 x login, THEN conjunct1, rule_format,
      OF conjI[OF admin_user_read(1) only], unfolded email]
  note T2 = exempt_admin_login[OF q2 ks2 pass_no_exempt_def kn2 ko2 x login, THEN conjunct2, rule_format,
      OF conjI[OF admin_user_read(2) roles], unfolded email]
  have r2: "''admin@localhost'' \<in> set (toRemove (pass_diff pass_no_exempt [''b''] [''admin@localhost'', ''b'']))"
    using T2[THEN conjunct2] desired2 by blast
  show ?thesis
    using q1 q2 ks1 ks2 kn1 ko1 kn2 ko2 x login admin_user_read T1 T2[THEN conjunct1] r2 desired1
    by simp
qed


end
